theory Spec2Isabelle
  imports Complex_Main "HOL-Library.AList" "HOL-Library.Log_Nat"
begin

section \<open>Holo Wars server: the game-state engine of server/server.js\<close>

text \<open>
  The development embeds the server part of the repository: the hex helpers, the
  breadth-first region search, the \<open>publicTroops\<close> aggregate, snapshot and restore, the
  rate limiter, the connection, join, recruit, deploy, move and attack handlers and the
  recruitment tick.

  JavaScript \<open>Map\<close>s and plain objects used as dictionaries are association lists:
  \<open>map_of\<close> is \<open>get\<close> (or a property read), \<open>AList.update\<close> is \<open>set\<close> (an existing
  key keeps its position, a new key goes to the end, as insertion order does) and
  \<open>AList.delete\<close> is \<open>delete\<close>. Objects that the source mutates in place are written
  back under the key they were read from. Numbers that the game only ever uses as
  integers are \<open>int\<close>; the fractional accumulator and the token bucket are JavaScript
  numbers, with the arithmetic of doubles. \<open>Date.now()\<close> and the random session token are
  inputs of the handlers.
\<close>

subsection \<open>Data model\<close>

type_synonym tile_id = string
type_synonym faction_id = string
type_synonym token = string
type_synonym socket_id = string
type_synonym ip = string

subsection \<open>JavaScript numbers\<close>

text \<open>
  A JavaScript number is an IEEE 754 double: a finite value, which is a rational number,
  one of the two infinities, or \<open>NaN\<close>. The two zeros are one value here. The program
  could tell them apart only by dividing by one, and its divisors are the constant 1000
  and \<open>recruitDurationMs / 1000\<close>, which is a zero only for the whole number 0.
\<close>

datatype number = Finite rat | PlusInfinity | MinusInfinity | NaN

text \<open>A whole number as a JavaScript number.\<close>

abbreviation whole_number :: "int \<Rightarrow> number" where
  "whole_number i \<equiv> Finite (of_int i)"

definition pow2 :: "int \<Rightarrow> rat" where
  "pow2 e = 2 powi e"

text \<open>
  The binary exponent of a non-zero rational: the \<open>e\<close> with \<open>2^e \<le> |x| < 2^(e+1)\<close>. The
  difference of the bit lengths of numerator and denominator is \<open>e\<close> or \<open>e + 1\<close>.
\<close>

definition exponent :: "rat \<Rightarrow> int" where
  "exponent x =
     (let (a, b) = quotient_of \<bar>x\<bar>;
          e0 = bitlen a - bitlen b
      in if pow2 e0 \<le> \<bar>x\<bar> then e0 else e0 - 1)"

text \<open>The nearest whole number, the even one of two that are equally near.\<close>

definition round_even :: "rat \<Rightarrow> int" where
  "round_even y =
     (let n = \<lfloor>y\<rfloor>; f = y - of_int n
      in if f < 1 / 2 then n else if 1 / 2 < f then n + 1 else if even n then n else n + 1)"

text \<open>
  Rounding of an exact result to a double (round to nearest, ties to even). A double
  with binary exponent \<open>e\<close> is a whole multiple of \<open>2^(e - 52)\<close>; below \<open>2^-1022\<close> the
  spacing stays \<open>2^-1074\<close> (the subnormal numbers, and 0 below half of that); a result
  that rounds to \<open>2^1024\<close> is an infinity, which takes an exponent of 1023 at least.
\<close>

definition fl :: "rat \<Rightarrow> number" where
  "fl x =
     (if x = 0 then Finite 0
      else
        let e = max (exponent x) (- 1022);
            q = pow2 (e - 52);
            r = of_int (round_even (\<bar>x\<bar> / q)) * q
        in if (if e < 1023 then False else pow2 1024 \<le> r)
           then (if 0 < x then PlusInfinity else MinusInfinity)
           else Finite (if 0 < x then r else - r))"

text \<open>The sign of a number (0 for a zero and for \<open>NaN\<close>), and the infinity of a sign.\<close>

fun sign :: "number \<Rightarrow> int" where
  "sign (Finite x) = (if 0 < x then 1 else if x < 0 then - 1 else 0)"
| "sign PlusInfinity = 1"
| "sign MinusInfinity = - 1"
| "sign NaN = 0"

definition infinity :: "int \<Rightarrow> number" where
  "infinity sg = (if 0 < sg then PlusInfinity else if sg < 0 then MinusInfinity else NaN)"

text \<open>
  The operators \<open>+\<close>, unary and binary \<open>-\<close>, \<open>*\<close> and \<open>/\<close>. A sum of opposite
  infinities, a product of a zero and an infinity, \<open>0 / 0\<close> and a quotient of infinities
  are \<open>NaN\<close>; another quotient by zero is an infinity.
\<close>

fun js_add :: "number \<Rightarrow> number \<Rightarrow> number" where
  "js_add (Finite x) (Finite y) = fl (x + y)"
| "js_add (Finite x) b = b"
| "js_add a (Finite y) = a"
| "js_add a b = (if a = b then a else NaN)"

fun js_neg :: "number \<Rightarrow> number" where
  "js_neg (Finite x) = Finite (- x)"
| "js_neg PlusInfinity = MinusInfinity"
| "js_neg MinusInfinity = PlusInfinity"
| "js_neg NaN = NaN"

definition js_sub :: "number \<Rightarrow> number \<Rightarrow> number" where
  "js_sub a b = js_add a (js_neg b)"

fun js_mul :: "number \<Rightarrow> number \<Rightarrow> number" where
  "js_mul (Finite x) (Finite y) = fl (x * y)"
| "js_mul a b = (if a = NaN \<or> b = NaN then NaN else infinity (sign a * sign b))"

fun js_div :: "number \<Rightarrow> number \<Rightarrow> number" where
  "js_div (Finite x) (Finite y) = (if y = 0 then infinity (sign (Finite x)) else fl (x / y))"
| "js_div (Finite x) b = (if b = NaN then NaN else Finite 0)"
| "js_div a (Finite y) = (if a = NaN then NaN else infinity (sign a * (if y < 0 then - 1 else 1)))"
| "js_div a b = NaN"

text \<open>The comparison \<open>a <= b\<close>, false when either side is \<open>NaN\<close>.\<close>

fun js_le :: "number \<Rightarrow> number \<Rightarrow> bool" where
  "js_le (Finite x) (Finite y) = (x \<le> y)"
| "js_le NaN b = False"
| "js_le a NaN = False"
| "js_le MinusInfinity b = True"
| "js_le a PlusInfinity = True"
| "js_le a b = False"

text \<open>\<open>Math.min\<close>, \<open>Math.max\<close> and \<open>Math.floor\<close>.\<close>

definition js_min :: "number \<Rightarrow> number \<Rightarrow> number" where
  "js_min a b = (if a = NaN \<or> b = NaN then NaN else if js_le a b then a else b)"

definition js_max :: "number \<Rightarrow> number \<Rightarrow> number" where
  "js_max a b = (if a = NaN \<or> b = NaN then NaN else if js_le a b then b else a)"

fun js_floor :: "number \<Rightarrow> number" where
  "js_floor (Finite x) = whole_number \<lfloor>x\<rfloor>"
| "js_floor a = a"

text \<open>\<open>x || 0\<close> for a number \<open>x\<close>: the falsy numbers are the zero and \<open>NaN\<close>.\<close>

definition or_zero :: "number \<Rightarrow> number" where
  "or_zero x = (if x = NaN \<or> x = Finite 0 then Finite 0 else x)"

text \<open>
  What \<open>JSON.stringify\<close> and \<open>JSON.parse\<close> make of a number: a finite one comes back as
  it was, the others as \<open>null\<close>. For the accumulator \<open>null\<close> is written \<open>NaN\<close>: the
  program reads the accumulator under \<open>|| 0\<close> and when it writes the state file only,
  and neither tells the two apart.
\<close>

fun json_number :: "number \<Rightarrow> number" where
  "json_number (Finite x) = Finite x"
| "json_number a = NaN"

text \<open>
  A number as a whole number, for the field \<open>produced\<close>: \<open>None\<close> is any of \<open>NaN\<close>,
  \<open>-Infinity\<close> and \<open>null\<close>. Of \<open>produced\<close> the program reads \<open>add > 0\<close>, which is false
  of all three, and it sends and saves the field as JSON, which writes all three as
  \<open>null\<close>. \<open>Math.min\<close> with the whole number \<open>reserveCap\<close> is never \<open>+Infinity\<close>.
\<close>

fun as_whole :: "number \<Rightarrow> int option" where
  "as_whole (Finite x) = Some \<lfloor>x\<rfloor>"
| "as_whole a = None"

text \<open>A tile object \<open>{id, q, r, ownerFaction, control, isCapital, publicTroops}\<close>.\<close>

record tile =
  id_t :: tile_id
  q_t :: int
  r_t :: int
  ownerFaction :: faction_id
  control :: int
  isCapital :: bool
  publicTroops :: int

text \<open>A faction object \<open>{id, name, color}\<close>.\<close>

record faction =
  id_f :: faction_id
  name_f :: string
  color_f :: string

text \<open>The player object documented above \<open>players\<close> in the source.\<close>

record player =
  token :: token
  name :: string
  factionId :: faction_id
  troops :: "(tile_id \<times> int) list"
  producedPrecise :: number
  produced :: "int option"
  inventory :: int
  remainingMs :: int
  recruitDurationMs :: int
  reserveCap :: int

text \<open>The token bucket made by \<open>makeLimiter\<close>.\<close>

record limiter =
  tokens_l :: number
  capacity_l :: number
  refillPerSec_l :: number
  last_l :: int

text \<open>
  The module-level state: the three parts of \<open>world\<close>, \<open>players\<close>, \<open>tokenToSocket\<close>,
  \<open>ipToToken\<close>, \<open>actionLimiters\<close>, and the live connections (\<open>io.sockets.sockets\<close>),
  each with the address its connection handler computed.
\<close>

record state =
  tiles :: "(tile_id \<times> tile) list"
  factions :: "faction list"
  capitalsByFaction :: "(faction_id \<times> tile_id) list"
  players :: "(token \<times> player) list"
  tokenToSocket :: "(token \<times> socket_id) list"
  ipToToken :: "(ip \<times> token) list"
  actionLimiters :: "(token \<times> limiter) list"
  sockets :: "(socket_id \<times> ip) list"

text \<open>
  The settings read from the environment that the handlers use: \<open>START_TROOPS\<close>
  (default 100) and \<open>DISABLE_IP_LOCK\<close> (default off). The two recruitment settings are
  plain constants of the source.
\<close>

record config =
  START_TROOPS :: int
  DISABLE_IP_LOCK :: bool

definition default_config :: config where
  "default_config = \<lparr>START_TROOPS = 100, DISABLE_IP_LOCK = False\<rparr>"

definition RECRUIT_DURATION_MS :: int where
  "RECRUIT_DURATION_MS = 5 * 60 * 1000"

definition RESERVE_CAP :: int where
  "RESERVE_CAP = 1000"

text \<open>An uncaught \<open>TypeError\<close> (a property read on \<open>undefined\<close>).\<close>

datatype error = TypeError

text \<open>The object built by \<open>buildMe\<close>: the player without the fractional accumulator.\<close>

datatype me = Me string faction_id "(tile_id \<times> int) list" "int option" int int int int token

definition buildMe :: "player \<Rightarrow> me" where
  "buildMe p = Me (name p) (factionId p) (troops p) (produced p) (inventory p)
     (remainingMs p) (recruitDurationMs p) (reserveCap p) (token p)"

text \<open>The outbound events with their payloads, and whom they go to.\<close>

datatype event =
    World_ev "(tile_id \<times> tile) list" "faction list" "(faction_id \<times> tile_id) list"
  | Players_online "(token \<times> string \<times> faction_id) list"
  | Joined me
  | Me_update me
  | Tile_update "tile option"
  | Combat_result tile_id tile_id int
  | Error_msg string
  | Session_error string

datatype emit = To socket_id event | All event

subsection \<open>Helpers\<close>

definition DIRS :: "(int \<times> int) list" where
  "DIRS = [(1, 0), (-1, 0), (0, 1), (0, -1), (1, -1), (-1, 1)]"

text \<open>Decimal rendering of an integer, as a template literal prints it.\<close>

fun digits :: "nat \<Rightarrow> string" where
  "digits n = (if n < 10 then [''0123456789'' ! n]
               else digits (n div 10) @ [''0123456789'' ! (n mod 10)])"

declare digits.simps [simp del]

definition show_int :: "int \<Rightarrow> string" where
  "show_int i = (if i < 0 then CHR ''-'' # digits (nat (- i)) else digits (nat i))"

definition key :: "int \<Rightarrow> int \<Rightarrow> tile_id" where
  "key q r = show_int q @ '','' @ show_int r"

definition neighborsOf :: "int \<Rightarrow> int \<Rightarrow> (int \<times> int) list" where
  "neighborsOf q r = map (\<lambda>(dq, dr). (q + dq, r + dr)) DIRS"

text \<open>
  The inner \<open>for\<close> loop of \<open>bfsRegion\<close> over \<open>DIRS\<close>: a neighbour that is a tile, has not
  been seen and is passable is added to \<open>seen\<close> and to the queue.
\<close>

fun expand :: "(tile_id \<times> tile) list \<Rightarrow> (tile \<Rightarrow> bool) \<Rightarrow> tile \<Rightarrow> (int \<times> int) list \<Rightarrow>
    tile_id list \<times> tile_id list \<Rightarrow> tile_id list \<times> tile_id list" where
  "expand ts passableFn t [] (seen, qu) = (seen, qu)"
| "expand ts passableFn t ((dq, dr) # ds) (seen, qu) =
     (let nid = key (q_t t + dq) (r_t t + dr) in
      case map_of ts nid of
        None \<Rightarrow> expand ts passableFn t ds (seen, qu)
      | Some nt \<Rightarrow>
          if nid \<notin> set seen \<and> passableFn nt
          then expand ts passableFn t ds (seen @ [nid], qu @ [nid])
          else expand ts passableFn t ds (seen, qu))"

text \<open>\<open>out.length < limit\<close>, where no limit stands for \<open>Infinity\<close>.\<close>

definition below_limit :: "nat \<Rightarrow> nat option \<Rightarrow> bool" where
  "below_limit n limit = (case limit of None \<Rightarrow> True | Some l \<Rightarrow> n < l)"

lemma expand_measure:
  "expand ts pf t ds (seen, qu) = (seen', qu') \<Longrightarrow>
   card (fst ` set ts - set seen') + length qu' = card (fst ` set ts - set seen) + length qu"
proof (induction ds arbitrary: seen qu)
  case Nil
  then show ?case by simp
next
  case (Cons d ds)
  obtain dq dr where d: "d = (dq, dr)" by (cases d)
  let ?nid = "key (q_t t + dq) (r_t t + dr)"
  show ?case
  proof (cases "map_of ts ?nid")
    case None
    with Cons d show ?thesis by simp
  next
    case (Some nt)
    show ?thesis
    proof (cases "?nid \<notin> set seen \<and> pf nt")
      case False
      with Cons d Some show ?thesis by (simp add: Let_def)
    next
      case True
      with Cons.prems d Some
      have "expand ts pf t ds (seen @ [?nid], qu @ [?nid]) = (seen', qu')"
        by (simp add: Let_def)
      from Cons.IH [OF this]
      have eq: "card (fst ` set ts - set seen') + length qu' =
                card (fst ` set ts - set (seen @ [?nid])) + length (qu @ [?nid])" .
      have mem: "?nid \<in> fst ` set ts - set seen"
        using Some True by (auto dest: map_of_SomeD intro: rev_image_eqI)
      have "fst ` set ts - set (seen @ [?nid]) = (fst ` set ts - set seen) - {?nid}"
        by auto
      then have "card (fst ` set ts - set (seen @ [?nid])) = card (fst ` set ts - set seen) - 1"
        using mem by (simp add: card_Diff_singleton)
      moreover have "card (fst ` set ts - set seen) > 0"
        using mem by (metis card_gt_0_iff empty_iff finite_Diff finite_imageI finite_set)
      ultimately show ?thesis using eq by simp
    qed
  qed
qed

text \<open>
  The \<open>while\<close> loop of \<open>bfsRegion\<close>. Reading \<open>t.q\<close> of a dequeued id that is not a tile
  throws; only the start id can be one.
\<close>

function bfs_loop :: "(tile_id \<times> tile) list \<Rightarrow> (tile \<Rightarrow> bool) \<Rightarrow> nat option \<Rightarrow>
    tile_id list \<Rightarrow> tile_id list \<Rightarrow> tile_id list \<Rightarrow> error + tile_id list" where
  "bfs_loop ts passableFn limit seen qu out =
     (case qu of
        [] \<Rightarrow> Inr out
      | i # rest \<Rightarrow>
          if \<not> below_limit (length out) limit then Inr out
          else (case map_of ts i of
                  None \<Rightarrow> Inl TypeError
                | Some t \<Rightarrow>
                    bfs_loop ts passableFn limit
                      (fst (expand ts passableFn t DIRS (seen, rest)))
                      (snd (expand ts passableFn t DIRS (seen, rest)))
                      (out @ [i])))"
  by pat_completeness auto
termination
proof (relation "measure (\<lambda>(ts, pf, limit, seen, qu, out).
         card (fst ` set ts - set seen) + length qu)")
  show "wf (measure (\<lambda>(ts, pf, limit, seen, qu, out).
         card (fst ` set ts - set seen) + length qu))"
    by simp
next
  fix ts :: "(tile_id \<times> tile) list" and passableFn :: "tile \<Rightarrow> bool"
    and limit :: "nat option" and seen qu out rest :: "tile_id list"
    and i :: tile_id and t :: tile
  assume "qu = i # rest"
  moreover have "card (fst ` set ts - set (fst (expand ts passableFn t DIRS (seen, rest))))
      + length (snd (expand ts passableFn t DIRS (seen, rest)))
      = card (fst ` set ts - set seen) + length rest"
    by (rule expand_measure) simp
  ultimately show "((ts, passableFn, limit,
        fst (expand ts passableFn t DIRS (seen, rest)),
        snd (expand ts passableFn t DIRS (seen, rest)), out @ [i]),
       (ts, passableFn, limit, seen, qu, out))
      \<in> measure (\<lambda>(ts, pf, limit, seen, qu, out).
           card (fst ` set ts - set seen) + length qu)"
    by simp
qed

declare bfs_loop.simps [simp del]

definition bfsRegion :: "tile_id \<Rightarrow> (tile_id \<times> tile) list \<Rightarrow> (tile \<Rightarrow> bool) \<Rightarrow> nat option \<Rightarrow>
    error + tile_id list" where
  "bfsRegion startId ts passableFn limit = bfs_loop ts passableFn limit [startId] [startId] []"


subsection \<open>The publicTroops aggregate\<close>

text \<open>\<open>p.troops[tileId] || 0\<close>: a missing entry counts as zero.\<close>

definition troops_at :: "player \<Rightarrow> tile_id \<Rightarrow> int" where
  "troops_at p tileId = (case map_of (troops p) tileId of None \<Rightarrow> 0 | Some v \<Rightarrow> v)"

text \<open>The summing loop of \<open>recalcPublicTroops\<close> over \<open>players.values()\<close>.\<close>

definition troops_sum :: "(token \<times> player) list \<Rightarrow> tile_id \<Rightarrow> int" where
  "troops_sum ps tileId = fold (\<lambda>(tok, p) sum. sum + troops_at p tileId) ps 0"

definition recalcPublicTroops :: "tile_id \<Rightarrow> state \<Rightarrow> state" where
  "recalcPublicTroops tileId s =
     (case map_of (tiles s) tileId of
        None \<Rightarrow> s
      | Some t \<Rightarrow>
          s\<lparr>tiles := AList.update tileId (t\<lparr>publicTroops := troops_sum (players s) tileId\<rparr>)
                       (tiles s)\<rparr>)"

definition recalcAllPublicTroops :: "state \<Rightarrow> state" where
  "recalcAllPublicTroops s = fold (\<lambda>(k, t). recalcPublicTroops (id_t t)) (tiles s) s"

subsection \<open>Snapshot and restore\<close>

text \<open>
  The parsed content of the state file. A tile of an old snapshot may lack
  \<open>publicTroops\<close>, and an old file may lack \<open>ipToToken\<close>. Writing the file and parsing
  it back is the identity on this data.
\<close>

record saved_tile =
  id_j :: tile_id
  q_j :: int
  r_j :: int
  ownerFaction_j :: faction_id
  control_j :: int
  isCapital_j :: bool
  publicTroops_j :: "int option"

record saved =
  tiles_j :: "saved_tile list"
  factions_j :: "faction list"
  capitalsByFaction_j :: "(faction_id \<times> tile_id) list"
  players_j :: "player list"
  ipToToken_j :: "(ip \<times> token) list option"

definition save_tile :: "tile \<Rightarrow> saved_tile" where
  "save_tile t = \<lparr>id_j = id_t t, q_j = q_t t, r_j = r_t t, ownerFaction_j = ownerFaction t,
     control_j = control t, isCapital_j = isCapital t, publicTroops_j = Some (publicTroops t)\<rparr>"

text \<open>
  \<open>snapshot\<close> lists the fields of each player and \<open>JSON.stringify\<close> writes them; of the
  fields only the accumulator can hold a number that is not finite.
\<close>

definition snapshot :: "config \<Rightarrow> state \<Rightarrow> saved" where
  "snapshot cfg s =
     \<lparr>tiles_j = map (\<lambda>(k, t). save_tile t) (tiles s),
      factions_j = factions s,
      capitalsByFaction_j = capitalsByFaction s,
      players_j = map (\<lambda>(k, p).
         \<lparr>token = token p, name = name p, factionId = factionId p, troops = troops p,
          producedPrecise = json_number (producedPrecise p), produced = produced p,
          inventory = inventory p, remainingMs = remainingMs p,
          recruitDurationMs = recruitDurationMs p, reserveCap = reserveCap p\<rparr>) (players s),
      ipToToken_j = Some (if DISABLE_IP_LOCK cfg then [] else ipToToken s)\<rparr>"

text \<open>\<open>{ ...t, publicTroops: typeof t.publicTroops === 'number' ? t.publicTroops : 0 }\<close>\<close>

definition restore_tile :: "saved_tile \<Rightarrow> tile" where
  "restore_tile t = \<lparr>id_t = id_j t, q_t = q_j t, r_t = r_j t, ownerFaction = ownerFaction_j t,
     control = control_j t, isCapital = isCapital_j t,
     publicTroops = (case publicTroops_j t of Some n \<Rightarrow> n | None \<Rightarrow> 0)\<rparr>"

text \<open>
  \<open>loadSnapshot\<close>; no file leaves the state as it is. The restored factions and capital
  lookup are stored in the properties of \<open>world\<close> only, which nothing reads afterwards:
  the handlers use the module constants \<open>factions\<close> and \<open>capitalsByFaction\<close>.
\<close>

definition loadSnapshot :: "config \<Rightarrow> saved option \<Rightarrow> state \<Rightarrow> state" where
  "loadSnapshot cfg file s =
     (case file of
        None \<Rightarrow> s
      | Some data \<Rightarrow>
          recalcAllPublicTroops
            (s\<lparr>tiles := fold (\<lambda>t m. AList.update (id_j t) (restore_tile t) m) (tiles_j data) [],
               players := fold (\<lambda>p m. AList.update (token p) p m) (players_j data) [],
               ipToToken :=
                 (case ipToToken_j data of
                    Some entries \<Rightarrow>
                      if \<not> DISABLE_IP_LOCK cfg
                      then fold (\<lambda>(a, tok) m. AList.update a tok m) entries []
                      else ipToToken s
                  | None \<Rightarrow> ipToToken s)\<rparr>))"

subsection \<open>Rate limiting\<close>

text \<open>
  The bucket holds numbers; \<open>now\<close> and \<open>last\<close> are whole milliseconds. The cost is given
  as the literal of the call and read as the double it denotes.
\<close>

definition makeLimiter :: "int \<Rightarrow> limiter" where
  "makeLimiter now = \<lparr>tokens_l = Finite 20, capacity_l = Finite 20, refillPerSec_l = Finite 10,
     last_l = now\<rparr>"

definition consume :: "limiter \<Rightarrow> int \<Rightarrow> rat \<Rightarrow> bool \<times> limiter" where
  "consume bucket now cost =
     (let delta = js_div (whole_number (now - last_l bucket)) (Finite 1000);
          refilled = js_min (capacity_l bucket)
                       (js_add (tokens_l bucket) (js_mul delta (refillPerSec_l bucket)));
          bucket1 = bucket\<lparr>tokens_l := refilled, last_l := now\<rparr>
      in if js_le (fl cost) refilled then (True, bucket1\<lparr>tokens_l := js_sub refilled (fl cost)\<rparr>)
         else (False, bucket1))"

subsection \<open>Sessions\<close>

text \<open>\<open>[...tokenToSocket.entries()].find(([, sid]) => sid === socket.id)?.[0]\<close>\<close>

definition session_token :: "state \<Rightarrow> socket_id \<Rightarrow> token option" where
  "session_token s sid = map_option fst (find (\<lambda>(tok, sid'). sid' = sid) (tokenToSocket s))"

text \<open>\<open>token && players.get(token)\<close>: an empty token is falsy.\<close>

definition session_player :: "state \<Rightarrow> socket_id \<Rightarrow> (token \<times> player) option" where
  "session_player s sid =
     (case session_token s sid of
        None \<Rightarrow> None
      | Some tok \<Rightarrow> if tok = [] then None else map_option (Pair tok) (map_of (players s) tok))"

text \<open>
  The common opening of every action handler: resolve the player of this socket, then
  pass the rate limiter. No player and an empty bucket both drop the request without a
  message; \<open>consume\<close> on a missing limiter throws.
\<close>

definition with_session :: "state \<Rightarrow> int \<Rightarrow> socket_id \<Rightarrow>
    (token \<Rightarrow> player \<Rightarrow> state \<Rightarrow> error + state \<times> emit list) \<Rightarrow> error + state \<times> emit list" where
  "with_session s now sid body =
     (case session_player s sid of
        None \<Rightarrow> Inr (s, [])
      | Some (tok, p) \<Rightarrow>
          (case map_of (actionLimiters s) tok of
             None \<Rightarrow> Inl TypeError
           | Some bucket \<Rightarrow>
               let s1 = s\<lparr>actionLimiters :=
                            AList.update tok (snd (consume bucket now 1)) (actionLimiters s)\<rparr>
               in if fst (consume bucket now 1) then body tok p s1 else Inr (s1, [])))"

definition pushPlayersOnline :: "state \<Rightarrow> emit" where
  "pushPlayersOnline s =
     All (Players_online (map (\<lambda>(k, p). (token p, name p, factionId p)) (players s)))"

text \<open>
  The connection handler. A refused socket is disconnected before any handler is
  registered on it, so it never enters \<open>sockets\<close>.
\<close>

definition connection :: "config \<Rightarrow> socket_id \<Rightarrow> ip \<Rightarrow> state \<Rightarrow> state \<times> emit list" where
  "connection cfg sid addr s =
     (if \<not> DISABLE_IP_LOCK cfg \<and>
         (case map_of (ipToToken s) addr of
            None \<Rightarrow> False
          | Some existing \<Rightarrow> existing \<noteq> [] \<and> map_of (tokenToSocket s) existing \<noteq> None)
      then (s, [To sid (Session_error ''Only one active session per IP is allowed.'')])
      else (s\<lparr>sockets := AList.update sid addr (sockets s)\<rparr>,
            [To sid (World_ev (tiles s) (factions s) (capitalsByFaction s)),
             pushPlayersOnline s]))"

definition join :: "config \<Rightarrow> int \<Rightarrow> socket_id \<Rightarrow> ip \<Rightarrow> string \<Rightarrow> faction_id \<Rightarrow> token \<Rightarrow>
    state \<Rightarrow> state \<times> emit list" where
  "join cfg now sid addr nm fid tok s =
     (if nm = [] \<or> fid = [] \<or> find (\<lambda>f. id_f f = fid) (factions s) = None
      then (s, [To sid (Error_msg ''Invalid join payload.'')])
      else
        let p0 = \<lparr>token = tok, name = take 24 nm, factionId = fid, troops = [],
                  producedPrecise = Finite 0, produced = Some 0, inventory = 0,
                  remainingMs = RECRUIT_DURATION_MS, recruitDurationMs = RECRUIT_DURATION_MS,
                  reserveCap = RESERVE_CAP\<rparr>;
            capId = (case map_of (capitalsByFaction s) fid of
                       None \<Rightarrow> None
                     | Some c \<Rightarrow> if c = [] then None else Some c);
            p = (case capId of
                   None \<Rightarrow> p0
                 | Some c \<Rightarrow>
                     p0\<lparr>troops := AList.update c (troops_at p0 c + START_TROOPS cfg) (troops p0)\<rparr>);
            s1 = (case capId of None \<Rightarrow> s | Some c \<Rightarrow> recalcPublicTroops c s);
            ev1 = (case capId of
                     None \<Rightarrow> []
                   | Some c \<Rightarrow> [All (Tile_update (map_of (tiles s1) c))]);
            s2 = s1\<lparr>players := AList.update tok p (players s1),
                    tokenToSocket := AList.update tok sid (tokenToSocket s1),
                    ipToToken := (if \<not> DISABLE_IP_LOCK cfg
                                  then AList.update addr tok (ipToToken s1)
                                  else ipToToken s1),
                    actionLimiters := AList.update tok (makeLimiter now) (actionLimiters s1)\<rparr>
        in (s2, ev1 @ [To sid (Joined (buildMe p)), pushPlayersOnline s2]))"

definition disconnect :: "config \<Rightarrow> socket_id \<Rightarrow> state \<Rightarrow> state \<times> emit list" where
  "disconnect cfg sid s =
     (let tk = session_token s sid;
          s1 = (case tk of
                  None \<Rightarrow> s
                | Some tok \<Rightarrow>
                    if tok = [] then s
                    else s\<lparr>tokenToSocket := AList.delete tok (tokenToSocket s)\<rparr>);
          s2 = (if \<not> DISABLE_IP_LOCK cfg
                then (case tk of
                        None \<Rightarrow> s1
                      | Some tok \<Rightarrow>
                          (case find (\<lambda>(a, tok'). tok' = tok) (ipToToken s1) of
                             None \<Rightarrow> s1
                           | Some (a, tok') \<Rightarrow> s1\<lparr>ipToToken := AList.delete a (ipToToken s1)\<rparr>))
                else s1);
          s3 = s2\<lparr>sockets := AList.delete sid (sockets s2)\<rparr>
      in (s3, [pushPlayersOnline s3]))"

subsection \<open>Actions\<close>

text \<open>
  \<open>Math.floor(Number(amount) || 0)\<close>. The argument is the value of \<open>Number(amount) || 0\<close>,
  taken to be finite: the number itself for a number or a numeric string, and 0 for an
  amount that \<open>Number\<close> reads as \<open>NaN\<close>.
\<close>

definition coerce_amount :: "rat \<Rightarrow> int" where
  "coerce_amount a = \<lfloor>a\<rfloor>"

text \<open>
  Each action handler is the common opening followed by a body, which gets the token and
  the player of the socket and the state after the rate limiter has been charged.
\<close>

definition recruit_collect_body :: "socket_id \<Rightarrow> token \<Rightarrow> player \<Rightarrow> state \<Rightarrow>
    error + state \<times> emit list" where
  "recruit_collect_body sid tok p s1 =
     (case produced p of
        None \<Rightarrow> Inr (s1, [])
      | Some add \<Rightarrow>
          if add > 0 then
            let p' = p\<lparr>inventory := inventory p + add,
                       producedPrecise :=
                         js_max (Finite 0) (js_sub (or_zero (producedPrecise p)) (whole_number add)),
                       produced := Some 0,
                       remainingMs := RECRUIT_DURATION_MS\<rparr>
            in Inr (s1\<lparr>players := AList.update tok p' (players s1)\<rparr>,
                    [To sid (Me_update (buildMe p'))])
          else Inr (s1, []))"

definition recruit_collect :: "int \<Rightarrow> socket_id \<Rightarrow> state \<Rightarrow> error + state \<times> emit list" where
  "recruit_collect now sid s = with_session s now sid (recruit_collect_body sid)"

definition deploy_body :: "socket_id \<Rightarrow> tile_id \<Rightarrow> rat \<Rightarrow> token \<Rightarrow> player \<Rightarrow> state \<Rightarrow>
    error + state \<times> emit list" where
  "deploy_body sid targetId raw tok p s1 =
      (let amount = coerce_amount raw in
       case map_of (tiles s1) targetId of
         None \<Rightarrow> Inr (s1, [])
       | Some t \<Rightarrow>
           if amount < 1 \<or> inventory p < amount then Inr (s1, [])
           else
             (case map_of (capitalsByFaction s1) (factionId p) of
                None \<Rightarrow> Inl TypeError
              | Some capId \<Rightarrow>
                  (case bfsRegion capId (tiles s1)
                          (\<lambda>tile. ownerFaction tile = factionId p) None of
                     Inl e \<Rightarrow> Inl e
                   | Inr eligible \<Rightarrow>
                       if targetId \<notin> set eligible
                       then Inr (s1, [To sid (Error_msg ''Target not connected to your capital.'')])
                       else
                         let p' = p\<lparr>inventory := inventory p - amount,
                                    troops := AList.update targetId
                                      (troops_at p targetId + amount) (troops p)\<rparr>;
                             s2 = recalcPublicTroops targetId
                                    (s1\<lparr>players := AList.update tok p' (players s1)\<rparr>)
                         in Inr (s2, [To sid (Me_update (buildMe p')),
                                      All (Tile_update (map_of (tiles s2) targetId))]))))"

definition deploy :: "int \<Rightarrow> socket_id \<Rightarrow> tile_id \<Rightarrow> rat \<Rightarrow> state \<Rightarrow> error + state \<times> emit list" where
  "deploy now sid targetId raw s = with_session s now sid (deploy_body sid targetId raw)"

text \<open>\<open>neighborsOf(from.q, from.r).some(([q, r]) => key(q, r) === toId)\<close>\<close>

definition adjacent :: "tile \<Rightarrow> tile_id \<Rightarrow> bool" where
  "adjacent from toId = list_ex (\<lambda>(q, r). key q r = toId) (neighborsOf (q_t from) (r_t from))"

text \<open>The debit \<open>p.troops[fromId] = have - amount\<close> followed by the removal of an entry
  that is not positive.\<close>

definition debit :: "tile_id \<Rightarrow> int \<Rightarrow> player \<Rightarrow> player" where
  "debit fromId amount p =
     (let p1 = p\<lparr>troops := AList.update fromId (troops_at p fromId - amount) (troops p)\<rparr>
      in if troops_at p1 fromId \<le> 0 then p1\<lparr>troops := AList.delete fromId (troops p1)\<rparr> else p1)"

definition credit :: "tile_id \<Rightarrow> int \<Rightarrow> player \<Rightarrow> player" where
  "credit toId amount p =
     p\<lparr>troops := AList.update toId (troops_at p toId + amount) (troops p)\<rparr>"

definition move_body :: "socket_id \<Rightarrow> tile_id \<Rightarrow> tile_id \<Rightarrow> rat \<Rightarrow> token \<Rightarrow> player \<Rightarrow>
    state \<Rightarrow> error + state \<times> emit list" where
  "move_body sid fromId toId raw tok p s1 =
      (let amount = coerce_amount raw in
       case (map_of (tiles s1) fromId, map_of (tiles s1) toId) of
         (Some from, Some to) \<Rightarrow>
           if amount < 1 then Inr (s1, [])
           else if \<not> adjacent from toId then Inr (s1, [])
           else if ownerFaction from \<noteq> factionId p \<or> ownerFaction to \<noteq> factionId p
           then Inr (s1, [])
           else if troops_at p fromId < amount then Inr (s1, [])
           else
             let p' = credit toId amount (debit fromId amount p);
                 s2 = recalcPublicTroops toId (recalcPublicTroops fromId
                        (s1\<lparr>players := AList.update tok p' (players s1)\<rparr>))
             in Inr (s2, [To sid (Me_update (buildMe p')),
                          All (Tile_update (map_of (tiles s2) fromId)),
                          All (Tile_update (map_of (tiles s2) toId))])
       | _ \<Rightarrow> Inr (s1, []))"

definition move :: "int \<Rightarrow> socket_id \<Rightarrow> tile_id \<Rightarrow> tile_id \<Rightarrow> rat \<Rightarrow> state \<Rightarrow>
    error + state \<times> emit list" where
  "move now sid fromId toId raw s = with_session s now sid (move_body sid fromId toId raw)"

definition attack_body :: "socket_id \<Rightarrow> tile_id \<Rightarrow> tile_id \<Rightarrow> rat \<Rightarrow> token \<Rightarrow> player \<Rightarrow>
    state \<Rightarrow> error + state \<times> emit list" where
  "attack_body sid fromId targetId raw tok p s1 =
      (let amount = coerce_amount raw in
       case (map_of (tiles s1) fromId, map_of (tiles s1) targetId) of
         (Some from, Some target) \<Rightarrow>
           if amount < 1 then Inr (s1, [])
           else if ownerFaction from \<noteq> factionId p then Inr (s1, [])
           else if troops_at p fromId < amount then Inr (s1, [])
           else if \<not> adjacent from targetId then Inr (s1, [])
           else if isCapital target
           then Inr (s1, [To sid (Error_msg ''Capitals cannot be conquered.'')])
           else
             let defenders = control target in
             if amount > defenders then
               let survivors = amount - defenders;
                   p' = credit targetId survivors (debit fromId amount p);
                   s2 = s1\<lparr>players := AList.update tok p' (players s1),
                           tiles := AList.update targetId
                             (target\<lparr>ownerFaction := factionId p, control := 0\<rparr>) (tiles s1)\<rparr>;
                   s3 = recalcPublicTroops targetId (recalcPublicTroops fromId s2)
               in Inr (s3, [To sid (Me_update (buildMe p')),
                            All (Combat_result fromId targetId survivors),
                            All (Tile_update (map_of (tiles s3) fromId)),
                            All (Tile_update (map_of (tiles s3) targetId))])
             else
               let p' = debit fromId amount p;
                   s2 = s1\<lparr>players := AList.update tok p' (players s1),
                           tiles := AList.update targetId
                             (target\<lparr>control := defenders - amount\<rparr>) (tiles s1)\<rparr>;
                   s3 = recalcPublicTroops fromId s2
               in Inr (s3, [To sid (Me_update (buildMe p')),
                            All (Tile_update (map_of (tiles s3) fromId)),
                            All (Tile_update (map_of (tiles s3) targetId))])
       | _ \<Rightarrow> Inr (s1, []))"

definition attack :: "int \<Rightarrow> socket_id \<Rightarrow> tile_id \<Rightarrow> tile_id \<Rightarrow> rat \<Rightarrow> state \<Rightarrow>
    error + state \<times> emit list" where
  "attack now sid fromId targetId raw s = with_session s now sid (attack_body sid fromId targetId raw)"

subsection \<open>Recruitment tick\<close>

text \<open>
  One iteration of the tick loop on one player; the period is 1000 ms. The two divisions
  of \<open>perSec\<close>, the sum and \<open>Math.min\<close> are those of JavaScript numbers: each result is
  rounded to a double, and a duration of 0 gives an infinite rate (\<open>NaN\<close> for a cap of 0).
\<close>

definition perSec :: "player \<Rightarrow> number" where
  "perSec p = js_div (whole_number (reserveCap p))
                (js_div (whole_number (recruitDurationMs p)) (Finite 1000))"

definition tick_player :: "player \<Rightarrow> player" where
  "tick_player p =
     (if remainingMs p > 0 then
        let acc = js_min (whole_number (reserveCap p))
                    (js_add (or_zero (producedPrecise p)) (perSec p))
        in p\<lparr>remainingMs := max 0 (remainingMs p - 1000),
             producedPrecise := acc,
             produced := as_whole (js_floor acc)\<rparr>
      else
        let acc = js_min (whole_number (reserveCap p)) (or_zero (producedPrecise p))
        in p\<lparr>producedPrecise := acc, produced := as_whole (js_floor acc)\<rparr>)"

text \<open>The \<open>me_update\<close> of the tick goes to the player's socket only if it is live.\<close>

definition tick_emit :: "state \<Rightarrow> player \<Rightarrow> emit list" where
  "tick_emit s p =
     (case map_of (tokenToSocket s) (token p) of
        None \<Rightarrow> []
      | Some sid \<Rightarrow>
          if sid \<noteq> [] \<and> map_of (sockets s) sid \<noteq> None
          then [To sid (Me_update (buildMe p))] else [])"

definition tick :: "state \<Rightarrow> state \<times> emit list" where
  "tick s =
     (s\<lparr>players := map (\<lambda>(k, p). (k, tick_player p)) (players s)\<rparr>,
      concat (map (\<lambda>(k, p). tick_emit s (tick_player p)) (players s)))"

subsection \<open>Runs\<close>

text \<open>
  What can happen to the server: a connection, a message on a live socket, a
  disconnection of a live socket, a tick, each at a time \<open>now\<close>. A message names its
  socket; one for a socket that is not connected has no handler and changes nothing.
  Every message carries its payload object, as the client sends it (a handler that
  destructures its argument throws on a message without one).
\<close>

datatype action =
    Connection socket_id ip
  | Join socket_id string faction_id token
  | Recruit_collect socket_id
  | Deploy socket_id tile_id rat
  | Move socket_id tile_id tile_id rat
  | Attack socket_id tile_id tile_id rat
  | Disconnect socket_id
  | Tick

definition on_socket :: "state \<Rightarrow> socket_id \<Rightarrow> (ip \<Rightarrow> error + state \<times> emit list) \<Rightarrow>
    error + state \<times> emit list" where
  "on_socket s sid handler =
     (case map_of (sockets s) sid of None \<Rightarrow> Inr (s, []) | Some addr \<Rightarrow> handler addr)"

fun step :: "config \<Rightarrow> int \<Rightarrow> action \<Rightarrow> state \<Rightarrow> error + state \<times> emit list" where
  "step cfg now (Connection sid addr) s = Inr (connection cfg sid addr s)"
| "step cfg now (Join sid nm fid tok) s =
     on_socket s sid (\<lambda>addr. Inr (join cfg now sid addr nm fid tok s))"
| "step cfg now (Recruit_collect sid) s = on_socket s sid (\<lambda>addr. recruit_collect now sid s)"
| "step cfg now (Deploy sid targetId raw) s =
     on_socket s sid (\<lambda>addr. deploy now sid targetId raw s)"
| "step cfg now (Move sid fromId toId raw) s =
     on_socket s sid (\<lambda>addr. move now sid fromId toId raw s)"
| "step cfg now (Attack sid fromId targetId raw) s =
     on_socket s sid (\<lambda>addr. attack now sid fromId targetId raw s)"
| "step cfg now (Disconnect sid) s = on_socket s sid (\<lambda>addr. Inr (disconnect cfg sid s))"
| "step cfg now Tick s = Inr (tick s)"

text \<open>A run stops at the first uncaught exception; the events are collected in order.\<close>

fun run :: "config \<Rightarrow> (int \<times> action) list \<Rightarrow> state \<Rightarrow> error + state \<times> emit list" where
  "run cfg [] s = Inr (s, [])"
| "run cfg ((now, a) # as) s =
     (case step cfg now a s of
        Inl e \<Rightarrow> Inl e
      | Inr (s1, ev1) \<Rightarrow>
          (case run cfg as s1 of
             Inl e \<Rightarrow> Inl e
           | Inr (s2, ev2) \<Rightarrow> Inr (s2, ev1 @ ev2)))"

text \<open>The state at boot of a generated world: nobody has joined or connected.\<close>

definition boot :: "(tile_id \<times> tile) list \<Rightarrow> faction list \<Rightarrow> (faction_id \<times> tile_id) list \<Rightarrow> state" where
  "boot ts fs caps = \<lparr>tiles = ts, factions = fs, capitalsByFaction = caps, players = [],
     tokenToSocket = [], ipToToken = [], actionLimiters = [], sockets = []\<rparr>"


text \<open>The state a run ends in; a run that throws keeps the state it started from.\<close>

definition state_after :: "config \<Rightarrow> (int \<times> action) list \<Rightarrow> state \<Rightarrow> state" where
  "state_after cfg as s = (case run cfg as s of Inl e \<Rightarrow> s | Inr (s', evs) \<Rightarrow> s')"

definition events_of :: "error + state \<times> emit list \<Rightarrow> emit list" where
  "events_of res = (case res of Inl e \<Rightarrow> [] | Inr (s', evs) \<Rightarrow> evs)"

subsection \<open>A small world for concrete runs\<close>

text \<open>
  Three tiles in a row: the capital of \<open>f1\<close>, a neutral tile with 25 defenders, the
  capital of \<open>f2\<close>.
\<close>

definition demo_cap1 :: tile where
  "demo_cap1 = \<lparr>id_t = ''0,0'', q_t = 0, r_t = 0, ownerFaction = ''f1'', control = 100,
     isCapital = True, publicTroops = 0\<rparr>"

definition demo_neutral :: tile where
  "demo_neutral = \<lparr>id_t = ''1,0'', q_t = 1, r_t = 0, ownerFaction = ''neutral'', control = 25,
     isCapital = False, publicTroops = 0\<rparr>"

definition demo_cap2 :: tile where
  "demo_cap2 = \<lparr>id_t = ''2,0'', q_t = 2, r_t = 0, ownerFaction = ''f2'', control = 100,
     isCapital = True, publicTroops = 0\<rparr>"

definition demo_tiles :: "(tile_id \<times> tile) list" where
  "demo_tiles = [(''0,0'', demo_cap1), (''1,0'', demo_neutral), (''2,0'', demo_cap2)]"

definition demo_factions :: "faction list" where
  "demo_factions =
     [\<lparr>id_f = ''f1'', name_f = ''Ouro Kronii'', color_f = ''#1e3a8a''\<rparr>,
      \<lparr>id_f = ''f2'', name_f = ''Hakos Baelz'', color_f = ''#ef4444''\<rparr>]"

definition demo_capitals :: "(faction_id \<times> tile_id) list" where
  "demo_capitals = [(''f1'', ''0,0''), (''f2'', ''2,0'')]"

definition demo_boot :: state where
  "demo_boot = boot demo_tiles demo_factions demo_capitals"

text \<open>Ann connects and joins \<open>f1\<close>; then Bob connects from another address and joins
  \<open>f2\<close>.\<close>

definition demo_ann :: "(int \<times> action) list" where
  "demo_ann = [(0, Connection ''s1'' ''10.0.0.1''), (0, Join ''s1'' ''Ann'' ''f1'' ''t1'')]"

definition demo_bob :: "(int \<times> action) list" where
  "demo_bob = [(0, Connection ''s2'' ''10.0.0.2''), (0, Join ''s2'' ''Bob'' ''f2'' ''t2'')]"

text \<open>Ann takes the neutral tile with 30 troops (5 survive), then Bob takes it from her
  with one troop.\<close>

definition demo_war :: "(int \<times> action) list" where
  "demo_war = demo_ann @ demo_bob @
     [(1000, Attack ''s1'' ''0,0'' ''1,0'' 30), (2000, Attack ''s2'' ''2,0'' ''1,0'' 1)]"

text \<open>The states after Ann has joined, and after the two captures.\<close>

definition demo_joined :: state where
  "demo_joined = state_after default_config demo_ann demo_boot"

definition demo_contested :: state where
  "demo_contested = state_after default_config demo_war demo_boot"

text \<open>Ann after one tick and a collection: 3 troops in her inventory.\<close>

definition demo_recruited :: state where
  "demo_recruited = state_after default_config
     (demo_ann @ [(1000, Tick), (1000, Recruit_collect ''s1'')]) demo_boot"

text \<open>Two sockets of one address connect before either joins; then both join.\<close>

definition demo_same_origin :: "(int \<times> action) list" where
  "demo_same_origin =
     [(0, Connection ''s1'' ''10.0.0.1''), (0, Connection ''s2'' ''10.0.0.1''),
      (0, Join ''s1'' ''Ann'' ''f1'' ''t1''), (1, Join ''s2'' ''Eve'' ''f1'' ''t2'')]"

text \<open>What a player has on a tile, read from a state.\<close>

definition troops_of :: "state \<Rightarrow> token \<Rightarrow> tile_id \<Rightarrow> int" where
  "troops_of s tok tileId =
     (case map_of (players s) tok of None \<Rightarrow> 0 | Some p \<Rightarrow> troops_at p tileId)"

text \<open>The player record that \<open>join\<close> makes for Ann.\<close>

definition demo_player :: player where
  "demo_player = \<lparr>token = ''t1'', name = ''Ann'', factionId = ''f1'', troops = [(''0,0'', 100)],
     producedPrecise = Finite 0, produced = Some 0, inventory = 0, remainingMs = 300000,
     recruitDurationMs = 300000, reserveCap = 1000\<rparr>"



subsection \<open>The checks of the handlers, and what they keep\<close>

text \<open>
  The checks that the attack handler makes before it looks at \<open>isCapital\<close>: a player is
  bound to the socket, the rate limiter admits the request, both tiles exist, the amount
  is at least 1, the source tile belongs to the player's faction and holds enough of the
  player's troops, and the target is a neighbour of the source.
\<close>

definition attack_checks :: "state \<Rightarrow> int \<Rightarrow> socket_id \<Rightarrow> tile_id \<Rightarrow> tile_id \<Rightarrow> rat \<Rightarrow> bool" where
  "attack_checks s now sid fromId targetId raw =
     (case session_player s sid of
        None \<Rightarrow> False
      | Some (tok, p) \<Rightarrow>
          (case map_of (actionLimiters s) tok of
             None \<Rightarrow> False
           | Some bucket \<Rightarrow>
               fst (consume bucket now 1) \<and>
               (case (map_of (tiles s) fromId, map_of (tiles s) targetId) of
                  (Some from, Some target) \<Rightarrow>
                    1 \<le> coerce_amount raw \<and> ownerFaction from = factionId p \<and>
                    coerce_amount raw \<le> troops_at p fromId \<and> adjacent from targetId
                | _ \<Rightarrow> False)))"

text \<open>The checks that the deploy handler makes before the search from the capital.\<close>

definition deploy_checks :: "state \<Rightarrow> int \<Rightarrow> socket_id \<Rightarrow> tile_id \<Rightarrow> rat \<Rightarrow> bool" where
  "deploy_checks s now sid targetId raw =
     (case session_player s sid of
        None \<Rightarrow> False
      | Some (tok, p) \<Rightarrow>
          (case map_of (actionLimiters s) tok of
             None \<Rightarrow> False
           | Some bucket \<Rightarrow>
               fst (consume bucket now 1) \<and> map_of (tiles s) targetId \<noteq> None \<and>
               1 \<le> coerce_amount raw \<and> coerce_amount raw \<le> inventory p))"

text \<open>\<open>eligible.has(targetId)\<close> of the deploy handler, for a faction.\<close>

definition connected :: "state \<Rightarrow> faction_id \<Rightarrow> tile_id \<Rightarrow> bool" where
  "connected s fid targetId =
     (case map_of (capitalsByFaction s) fid of
        None \<Rightarrow> False
      | Some capId \<Rightarrow>
          (case bfsRegion capId (tiles s) (\<lambda>tile. ownerFaction tile = fid) None of
             Inl e \<Rightarrow> False
           | Inr eligible \<Rightarrow> targetId \<in> set eligible))"

text \<open>All the checks of the move handler.\<close>

definition move_checks :: "state \<Rightarrow> int \<Rightarrow> socket_id \<Rightarrow> tile_id \<Rightarrow> tile_id \<Rightarrow> rat \<Rightarrow> bool" where
  "move_checks s now sid fromId toId raw =
     (case session_player s sid of
        None \<Rightarrow> False
      | Some (tok, p) \<Rightarrow>
          (case map_of (actionLimiters s) tok of
             None \<Rightarrow> False
           | Some bucket \<Rightarrow>
               fst (consume bucket now 1) \<and>
               (case (map_of (tiles s) fromId, map_of (tiles s) toId) of
                  (Some from, Some to) \<Rightarrow>
                    1 \<le> coerce_amount raw \<and> adjacent from toId \<and>
                    ownerFaction from = factionId p \<and> ownerFaction to = factionId p \<and>
                    coerce_amount raw \<le> troops_at p fromId
                | _ \<Rightarrow> False)))"

definition is_error_msg :: "emit \<Rightarrow> bool" where
  "is_error_msg e =
     (case e of To sid (Error_msg m) \<Rightarrow> True | All (Error_msg m) \<Rightarrow> True | _ \<Rightarrow> False)"

definition is_session_error :: "emit \<Rightarrow> bool" where
  "is_session_error e =
     (case e of To sid (Session_error m) \<Rightarrow> True | All (Session_error m) \<Rightarrow> True | _ \<Rightarrow> False)"

text \<open>
  What every step keeps of a tile: its identity and coordinates, whether it is a
  capital, and for a capital its owner and its defenders.
\<close>

definition tile_kept :: "tile \<Rightarrow> tile \<Rightarrow> bool" where
  "tile_kept c c' = (id_t c' = id_t c \<and> q_t c' = q_t c \<and> r_t c' = r_t c \<and>
     isCapital c' = isCapital c \<and>
     (isCapital c \<longrightarrow> ownerFaction c' = ownerFaction c \<and> control c' = control c))"

definition tiles_kept :: "state \<Rightarrow> state \<Rightarrow> bool" where
  "tiles_kept s s' = (\<forall>k c. map_of (tiles s) k = Some c \<longrightarrow>
      (\<exists>c'. map_of (tiles s') k = Some c' \<and> tile_kept c c'))"

text \<open>No stored troop entry is zero or negative.\<close>

definition entries_positive :: "player \<Rightarrow> bool" where
  "entries_positive p = list_all (\<lambda>(k, v). 0 < v) (troops p)"

definition troops_positive :: "state \<Rightarrow> bool" where
  "troops_positive s = list_all (\<lambda>(tok, p). entries_positive p) (players s)"

text \<open>Every tile's \<open>publicTroops\<close> is the sum of the players' entries for it.\<close>

definition aggregates_right :: "state \<Rightarrow> bool" where
  "aggregates_right s =
     list_all (\<lambda>k. case map_of (tiles s) k of
                      None \<Rightarrow> True
                    | Some c \<Rightarrow> publicTroops c = troops_sum (players s) k)
       (map fst (tiles s))"

definition is_join :: "action \<Rightarrow> bool" where
  "is_join a = (case a of Join sid nm fid tok \<Rightarrow> True | _ \<Rightarrow> False)"

text \<open>
  Tiles are stored under their \<open>id\<close> and players under their \<open>token\<close>, each key once, as
  the keys of a \<open>Map\<close> are; world generation and \<open>join\<close> store them so.
\<close>

definition stored_by_id :: "state \<Rightarrow> bool" where
  "stored_by_id s = (list_all (\<lambda>(k, t). id_t t = k) (tiles s) \<and> distinct (map fst (tiles s)) \<and>
     list_all (\<lambda>(k, p). token p = k) (players s) \<and> distinct (map fst (players s)))"

text \<open>A player record as it comes back from the state file.\<close>

definition saved_player :: "player \<Rightarrow> player" where
  "saved_player p = p\<lparr>producedPrecise := json_number (producedPrecise p)\<rparr>"

text \<open>A snapshot written before \<open>publicTroops\<close> existed: the tiles lack the field.\<close>

definition old_schema :: "saved \<Rightarrow> saved" where
  "old_schema data = data\<lparr>tiles_j := map (\<lambda>t. t\<lparr>publicTroops_j := None\<rparr>) (tiles_j data)\<rparr>"

subsection \<open>Reachability through passable tiles\<close>

text \<open>
  The graph that \<open>bfsRegion\<close> searches, in the words of the specification: from a tile
  one hop leads to each of its six neighbours that is a tile and passable.
\<close>

inductive linked :: "(tile_id \<times> tile) list \<Rightarrow> (tile \<Rightarrow> bool) \<Rightarrow> tile_id \<Rightarrow> tile_id \<Rightarrow> bool"
  for ts :: "(tile_id \<times> tile) list" and passableFn :: "tile \<Rightarrow> bool" and a :: tile_id where
  start: "linked ts passableFn a a"
| hop: "linked ts passableFn a b \<Longrightarrow> map_of ts b = Some t \<Longrightarrow> (dq, dr) \<in> set DIRS \<Longrightarrow>
        map_of ts (key (q_t t + dq) (r_t t + dr)) = Some nt \<Longrightarrow> passableFn nt \<Longrightarrow>
        linked ts passableFn a (key (q_t t + dq) (r_t t + dr))"

code_pred linked .

text \<open>The neighbours that one run of the inner loop of \<open>bfsRegion\<close> can add.\<close>

definition hops :: "(tile_id \<times> tile) list \<Rightarrow> (tile \<Rightarrow> bool) \<Rightarrow> tile \<Rightarrow> (int \<times> int) list \<Rightarrow>
    tile_id set" where
  "hops ts pf t ds = {c. \<exists>dq dr nt. (dq, dr) \<in> set ds \<and> c = key (q_t t + dq) (r_t t + dr) \<and>
      map_of ts c = Some nt \<and> pf nt}"

subsection \<open>Well-formed tile maps\<close>

text \<open>
  World generation stores every tile under \<open>key(q, r)\<close> of its own coordinates, which
  is also its \<open>id\<close>; no handler changes \<open>id\<close>, \<open>q\<close> or \<open>r\<close>.
\<close>

definition tiles_keyed :: "(tile_id \<times> tile) list \<Rightarrow> bool" where
  "tiles_keyed ts = list_all (\<lambda>(k, t). k = key (q_t t) (r_t t) \<and> id_t t = k) ts"

text \<open>Reading a decimal rendering back, to show that \<open>key\<close> is injective.\<close>

definition digit_val :: "char \<Rightarrow> nat" where
  "digit_val c = length (takeWhile (\<lambda>d. d \<noteq> c) ''0123456789'')"

definition undigits :: "string \<Rightarrow> nat" where
  "undigits cs = foldl (\<lambda>a c. 10 * a + digit_val c) 0 cs"

section \<open>Properties\<close>

subsection \<open>Rounding\<close>

text \<open>
  For evaluation a rounded value is kept as a fraction in lowest terms, so that later
  operations start from its numerator and denominator.
\<close>

lemma fl_code [code]:
  "fl x =
     (if x = 0 then Finite 0
      else
        let e = max (exponent x) (- 1022);
            q = pow2 (e - 52);
            r = of_int (round_even (\<bar>x\<bar> / q)) * q
        in if (if e < 1023 then False else pow2 1024 \<le> r)
           then (if 0 < x then PlusInfinity else MinusInfinity)
           else Finite (let (a, b) = quotient_of (if 0 < x then r else - r) in Fract a b))"
  by (simp add: fl_def Let_def case_prod_unfold quotient_of_div Fract_of_int_quotient prod.case_eq_if)

subsection \<open>Basic facts\<close>

lemma troops_sum_eq:
  "troops_sum ps t = sum_list (map (\<lambda>(k, p). troops_at p t) ps)"
proof -
  have "fold (\<lambda>(tok, p) sum. sum + troops_at p t) ps a
        = a + sum_list (map (\<lambda>(k, p). troops_at p t) ps)" for a
    by (induction ps arbitrary: a) (auto simp: algebra_simps)
  then show ?thesis by (simp add: troops_sum_def)
qed

lemma recalc_fields [simp]:
  "players (recalcPublicTroops t s) = players s"
  "tokenToSocket (recalcPublicTroops t s) = tokenToSocket s"
  "ipToToken (recalcPublicTroops t s) = ipToToken s"
  "actionLimiters (recalcPublicTroops t s) = actionLimiters s"
  "sockets (recalcPublicTroops t s) = sockets s"
  "factions (recalcPublicTroops t s) = factions s"
  "capitalsByFaction (recalcPublicTroops t s) = capitalsByFaction s"
  by (simp_all add: recalcPublicTroops_def split: option.splits)

lemma map_of_tiles_recalc:
  "map_of (tiles (recalcPublicTroops t s)) k =
     (if k = t
      then map_option (\<lambda>x. x\<lparr>publicTroops := troops_sum (players s) t\<rparr>) (map_of (tiles s) t)
      else map_of (tiles s) k)"
  by (simp add: recalcPublicTroops_def AList.update_conv' split: option.splits)

lemma debit_fields [simp]:
  "token (debit f a p) = token p" "name (debit f a p) = name p"
  "factionId (debit f a p) = factionId p" "inventory (debit f a p) = inventory p"
  "produced (debit f a p) = produced p" "producedPrecise (debit f a p) = producedPrecise p"
  "remainingMs (debit f a p) = remainingMs p"
  "recruitDurationMs (debit f a p) = recruitDurationMs p"
  "reserveCap (debit f a p) = reserveCap p"
  by (simp_all add: debit_def Let_def)

lemma credit_fields [simp]:
  "token (credit f a p) = token p" "name (credit f a p) = name p"
  "factionId (credit f a p) = factionId p" "inventory (credit f a p) = inventory p"
  "produced (credit f a p) = produced p" "producedPrecise (credit f a p) = producedPrecise p"
  "remainingMs (credit f a p) = remainingMs p"
  "recruitDurationMs (credit f a p) = recruitDurationMs p"
  "reserveCap (credit f a p) = reserveCap p"
  by (simp_all add: credit_def)

lemma map_of_troops_debit:
  "map_of (troops (debit f a p)) t =
     (if t = f then (if troops_at p f - a \<le> 0 then None else Some (troops_at p f - a))
      else map_of (troops p) t)"
  by (simp add: debit_def Let_def troops_at_def AList.update_conv' AList.delete_conv')

lemma map_of_troops_credit:
  "map_of (troops (credit t a p)) k =
     (if k = t then Some (troops_at p t + a) else map_of (troops p) k)"
  by (simp add: credit_def AList.update_conv')

lemma troops_at_debit:
  "a \<le> troops_at p f \<Longrightarrow>
   troops_at (debit f a p) t = (if t = f then troops_at p f - a else troops_at p t)"
  by (auto simp: troops_at_def [of "debit f a p"] map_of_troops_debit)
     (simp add: troops_at_def)

lemma troops_at_credit:
  "troops_at (credit t a p) k = (if k = t then troops_at p t + a else troops_at p k)"
  by (simp add: troops_at_def [of "credit t a p"] map_of_troops_credit)
     (simp add: troops_at_def)

lemma keys_update_present:
  "map_of al k = Some v \<Longrightarrow> map fst (AList.update k v' al) = map fst al"
  by (auto simp: AList.update_keys dest: map_of_SomeD intro: rev_image_eqI)

subsection \<open>Tile keys\<close>

lemma digit_cases: "d < 10 \<Longrightarrow> d \<in> {0, 1, 2, 3, 4, 5, 6, 7, 8, 9::nat}"
  by auto

lemma digit_val_nth: "d < 10 \<Longrightarrow> digit_val (''0123456789'' ! d) = d"
  by (drule digit_cases) (auto simp: digit_val_def)

lemma digit_nth_plain: "d < 10 \<Longrightarrow> ''0123456789'' ! d \<noteq> CHR '','' \<and> ''0123456789'' ! d \<noteq> CHR ''-''"
  by (drule digit_cases) auto

lemma undigits_digits: "undigits (digits n) = n"
proof (induction n rule: digits.induct)
  case (1 n)
  show ?case
  proof (cases "n < 10")
    case True
    then show ?thesis
      by (subst digits.simps) (simp add: undigits_def digit_val_nth)
  next
    case False
    with 1 have "undigits (digits (n div 10)) = n div 10" by simp
    with False show ?thesis
      by (subst digits.simps) (simp add: undigits_def digit_val_nth)
  qed
qed

lemma digits_inj: "digits m = digits n \<Longrightarrow> m = n"
  by (metis undigits_digits)

lemma digits_plain: "c \<in> set (digits n) \<Longrightarrow> c \<noteq> CHR '','' \<and> c \<noteq> CHR ''-''"
proof (induction n rule: digits.induct)
  case (1 n)
  show ?case
  proof (cases "n < 10")
    case True
    with 1(2) show ?thesis
      by (subst (asm) digits.simps) (simp add: digit_nth_plain)
  next
    case False
    with 1 show ?thesis
      by (subst (asm) (2) digits.simps) (auto simp: digit_nth_plain)
  qed
qed

lemma digits_nonempty: "digits n \<noteq> []"
  by (subst digits.simps) simp

lemma show_int_inj: "show_int i = show_int j \<Longrightarrow> i = j"
proof -
  assume eq: "show_int i = show_int j"
  have hd_plain: "hd (digits n) \<noteq> CHR ''-''" for n
    using digits_plain [of "hd (digits n)" n] digits_nonempty [of n] by simp
  have clash: "CHR ''-'' # digits m \<noteq> digits n" for m n
    using hd_plain [of n] by (metis list.sel(1))
  show "i = j"
  proof (cases "i < 0")
    case True
    show ?thesis
    proof (cases "j < 0")
      case True
      with \<open>i < 0\<close> eq have "nat (- i) = nat (- j)"
        by (auto simp: show_int_def dest: digits_inj)
      with True \<open>i < 0\<close> show ?thesis by simp
    next
      case False
      with \<open>i < 0\<close> eq clash show ?thesis by (simp add: show_int_def)
    qed
  next
    case False
    show ?thesis
    proof (cases "j < 0")
      case True
      with False eq clash [of "nat (- j)" "nat i"] show ?thesis by (simp add: show_int_def)
    next
      case jpos: False
      with False eq have "nat i = nat j"
        by (auto simp: show_int_def dest: digits_inj)
      with False jpos show ?thesis by simp
    qed
  qed
qed

lemma show_int_no_comma: "CHR '','' \<notin> set (show_int i)"
  using digits_plain by (auto simp: show_int_def)

lemma split_at_first:
  "c \<notin> set xs \<Longrightarrow>
   takeWhile (\<lambda>x. x \<noteq> c) (xs @ c # ys) = xs \<and> dropWhile (\<lambda>x. x \<noteq> c) (xs @ c # ys) = c # ys"
  by (induction xs) auto

lemma key_inj: "key q r = key q' r' \<Longrightarrow> q = q' \<and> r = r'"
proof -
  assume eq: "key q r = key q' r'"
  have split: "takeWhile (\<lambda>c. c \<noteq> CHR '','') (key a b) = show_int a \<and>
               dropWhile (\<lambda>c. c \<noteq> CHR '','') (key a b) = CHR '','' # show_int b" for a b
    using split_at_first [OF show_int_no_comma, of a "show_int b"] by (simp add: key_def)
  from eq split [of q r] split [of q' r'] have "show_int q = show_int q'" "show_int r = show_int r'"
    by auto
  then show ?thesis by (auto dest: show_int_inj)
qed

lemma adjacent_keyed_distinct:
  "adjacent t targetId \<Longrightarrow> key (q_t t) (r_t t) \<noteq> targetId"
  by (auto simp: adjacent_def neighborsOf_def DIRS_def dest: key_inj)

lemma keyed_lookup:
  "tiles_keyed ts \<Longrightarrow> map_of ts k = Some t \<Longrightarrow> k = key (q_t t) (r_t t) \<and> id_t t = k"
  by (auto simp: tiles_keyed_def list_all_iff dest: map_of_SomeD)

lemma neighbours_distinct:
  "tiles_keyed ts \<Longrightarrow> map_of ts fromId = Some t \<Longrightarrow> adjacent t targetId \<Longrightarrow> fromId \<noteq> targetId"
  using adjacent_keyed_distinct keyed_lookup by blast

subsection \<open>The common opening of the handlers\<close>

lemma with_session_cases:
  assumes "with_session s now sid body = Inr (s', evs)"
  obtains (unbound) "session_player s sid = None" "s' = s" "evs = []"
  | (limited) tok p bucket where "session_player s sid = Some (tok, p)"
      "map_of (actionLimiters s) tok = Some bucket" "\<not> fst (consume bucket now 1)"
      "s' = s\<lparr>actionLimiters := AList.update tok (snd (consume bucket now 1)) (actionLimiters s)\<rparr>"
      "evs = []"
  | (admitted) tok p bucket where "session_player s sid = Some (tok, p)"
      "map_of (actionLimiters s) tok = Some bucket" "fst (consume bucket now 1)"
      "body tok p (s\<lparr>actionLimiters := AList.update tok (snd (consume bucket now 1))
         (actionLimiters s)\<rparr>) = Inr (s', evs)"
  using assms unfolding with_session_def
  by (auto simp: Let_def split: option.splits if_splits prod.splits)

lemma with_session_admitted:
  "session_player s sid = Some (tok, p) \<Longrightarrow> map_of (actionLimiters s) tok = Some bucket \<Longrightarrow>
   fst (consume bucket now 1) \<Longrightarrow>
   with_session s now sid body =
     body tok p (s\<lparr>actionLimiters := AList.update tok (snd (consume bucket now 1)) (actionLimiters s)\<rparr>)"
  by (simp add: with_session_def Let_def)

subsection \<open>Attack: resolution\<close>

text \<open>
  Claim C1, as the code has it. Let a player be bound to the socket and the rate limiter
  admit the request; let the tiles be stored under the keys of their coordinates, the
  source tile belong to the player's faction, the amount (the payload rounded down) be
  at least 1 and at most the player's troops on the source tile, the target be a
  neighbour of the source and not a capital. Then the attack returns, the player's troops
  on the source tile drop by the amount, and
  \<^item> if the amount exceeds the target's control, the player's troops on the target grow by
    the survivors (amount minus control), the target goes to the player's faction with
    control 0, and the events are the player update, a \<open>combat_result\<close> with the
    survivors, and the two tile updates;
  \<^item> otherwise (a tie included) the owner of the target and the player's troops on the
    target stay, the control drops by the amount, and the events are the player update
    and the two tile updates, with no \<open>combat_result\<close>.
\<close>

theorem attack_resolution:
  assumes sess: "session_player s sid = Some (tok, p)"
    and bucket: "map_of (actionLimiters s) tok = Some bucket" "fst (consume bucket now 1)"
    and keyed: "tiles_keyed (tiles s)"
    and tls: "map_of (tiles s) fromId = Some from" "map_of (tiles s) targetId = Some target"
    and own: "ownerFaction from = factionId p"
    and amt: "amount = coerce_amount raw" "1 \<le> amount" "amount \<le> troops_at p fromId"
    and adj: "adjacent from targetId"
    and nocap: "\<not> isCapital target"
  shows "\<exists>s' evs p' target'.
      attack now sid fromId targetId raw s = Inr (s', evs) \<and>
      map_of (players s') tok = Some p' \<and> map_of (tiles s') targetId = Some target' \<and>
      troops_at p' fromId = troops_at p fromId - amount \<and>
      (control target < amount \<longrightarrow>
         troops_at p' targetId = troops_at p targetId + (amount - control target) \<and>
         ownerFaction target' = factionId p \<and> control target' = 0 \<and>
         evs = [To sid (Me_update (buildMe p')),
                All (Combat_result fromId targetId (amount - control target)),
                All (Tile_update (map_of (tiles s') fromId)),
                All (Tile_update (Some target'))]) \<and>
      (amount \<le> control target \<longrightarrow>
         troops_at p' targetId = troops_at p targetId \<and>
         ownerFaction target' = ownerFaction target \<and>
         control target' = control target - amount \<and>
         evs = [To sid (Me_update (buildMe p')),
                All (Tile_update (map_of (tiles s') fromId)),
                All (Tile_update (Some target'))])"
proof -
  have ne: "fromId \<noteq> targetId"
    using neighbours_distinct [OF keyed tls(1) adj] .
  show ?thesis
  proof (cases "control target < amount")
    case True
    with assms ne show ?thesis
      unfolding attack_def attack_body_def with_session_admitted [OF sess bucket]
      by (simp add: Let_def AList.update_conv' map_of_tiles_recalc troops_at_credit
          troops_at_debit)
  next
    case False
    with assms ne show ?thesis
      unfolding attack_def attack_body_def with_session_admitted [OF sess bucket]
      by (simp add: Let_def AList.update_conv' map_of_tiles_recalc troops_at_debit)
  qed
qed

text \<open>Ann attacks the neutral tile (control 25) with 26 troops: one survivor.\<close>

theorem attack_resolution_witness:
  "\<exists>s' evs p' target'.
      attack 1000 ''s1'' ''0,0'' ''1,0'' 26 demo_joined = Inr (s', evs) \<and>
      map_of (players s') ''t1'' = Some p' \<and> map_of (tiles s') ''1,0'' = Some target' \<and>
      troops_at p' ''0,0'' = 74 \<and> troops_at p' ''1,0'' = 1 \<and>
      ownerFaction target' = ''f1'' \<and> control target' = 0"
proof -
  have sess: "session_player demo_joined ''s1'' = Some (''t1'', demo_player)" by code_simp
  have bucket: "map_of (actionLimiters demo_joined) ''t1'' = Some (makeLimiter 0)" by code_simp
  have admit: "fst (consume (makeLimiter 0) 1000 1)" by code_simp
  have keyed: "tiles_keyed (tiles demo_joined)" by code_simp
  have t1: "map_of (tiles demo_joined) ''0,0'' = Some demo_cap1" by code_simp
  have t2: "map_of (tiles demo_joined) ''1,0'' = Some demo_neutral" by code_simp
  have own: "ownerFaction demo_cap1 = factionId demo_player" by code_simp
  have amt: "(26::int) = coerce_amount 26" "1 \<le> (26::int)" "26 \<le> troops_at demo_player ''0,0''"
    by code_simp+
  have adj: "adjacent demo_cap1 ''1,0''" by code_simp
  have nocap: "\<not> isCapital demo_neutral" by code_simp
  have vals: "control demo_neutral = 25" "troops_at demo_player ''0,0'' = 100"
    "troops_at demo_player ''1,0'' = 0" "factionId demo_player = ''f1''"
    by code_simp+
  from attack_resolution [OF sess bucket admit keyed t1 t2 own amt adj nocap]
  show ?thesis unfolding vals by fastforce
qed

text \<open>
  The claim as stated fails in two places. After the two captures of the small world Ann
  still has 5 troops on tile \<open>1,0\<close>, which now belongs to \<open>f2\<close> with control 0; she attacks
  it from her capital with 1 troop, captures it with 1 survivor, and her entry there is
  6, not the survivors. And an attack with amount \<open>-1\<close>, which is at most her troops and at
  most the control, is dropped: the control of the target (25) does not change by the
  amount, nor do her troops.
\<close>

theorem attack_survivors_counterexample:
  "troops_of demo_contested ''t1'' ''1,0'' = 5 \<and>
   map_option control (map_of (tiles demo_contested) ''1,0'') = Some 0 \<and>
   map_option ownerFaction (map_of (tiles demo_contested) ''1,0'') = Some ''f2'' \<and>
   troops_of (state_after default_config [(3000, Attack ''s1'' ''0,0'' ''1,0'' 1)] demo_contested)
     ''t1'' ''1,0'' = 6 \<and>
   map_option ownerFaction (map_of (tiles
     (state_after default_config [(3000, Attack ''s1'' ''0,0'' ''1,0'' 1)] demo_contested)) ''1,0'')
     = Some ''f1'' \<and>
   map_option control (map_of (tiles
     (state_after default_config [(1000, Attack ''s1'' ''0,0'' ''1,0'' (-1))] demo_joined)) ''1,0'')
     = Some 25 \<and>
   troops_of (state_after default_config [(1000, Attack ''s1'' ''0,0'' ''1,0'' (-1))] demo_joined)
     ''t1'' ''0,0'' = 100"
  by code_simp

subsection \<open>What every step keeps of the tiles\<close>

lemma tiles_kept_refl: "tiles s' = tiles s \<Longrightarrow> tiles_kept s s'"
  by (simp add: tiles_kept_def tile_kept_def)

lemma tiles_kept_trans: "tiles_kept s s1 \<Longrightarrow> tiles_kept s1 s2 \<Longrightarrow> tiles_kept s s2"
proof -
  assume a: "tiles_kept s s1" and b: "tiles_kept s1 s2"
  show "tiles_kept s s2"
    unfolding tiles_kept_def
  proof (intro allI impI)
    fix k c assume "map_of (tiles s) k = Some c"
    with a obtain c1 where c1: "map_of (tiles s1) k = Some c1" "tile_kept c c1"
      unfolding tiles_kept_def by blast
    with b obtain c2 where c2: "map_of (tiles s2) k = Some c2" "tile_kept c1 c2"
      unfolding tiles_kept_def by blast
    from c1(2) c2(2) have "tile_kept c c2" by (auto simp: tile_kept_def)
    with c2(1) show "\<exists>c'. map_of (tiles s2) k = Some c' \<and> tile_kept c c'" by blast
  qed
qed

lemma attack_body_tiles_kept:
  "attack_body sid fromId targetId raw tok p s1 = Inr (s', evs) \<Longrightarrow> tiles_kept s1 s'"
  by (auto simp: attack_body_def Let_def tiles_kept_def tile_kept_def map_of_tiles_recalc
      AList.update_conv' split: option.splits if_splits)

lemma move_body_tiles_kept:
  "move_body sid fromId toId raw tok p s1 = Inr (s', evs) \<Longrightarrow> tiles_kept s1 s'"
  by (auto simp: move_body_def Let_def tiles_kept_def tile_kept_def map_of_tiles_recalc
      AList.update_conv' split: option.splits if_splits)

lemma deploy_body_tiles_kept:
  "deploy_body sid targetId raw tok p s1 = Inr (s', evs) \<Longrightarrow> tiles_kept s1 s'"
  by (auto simp: deploy_body_def Let_def tiles_kept_def tile_kept_def map_of_tiles_recalc
      AList.update_conv' split: option.splits if_splits sum.splits)

lemma recruit_collect_body_tiles_kept:
  "recruit_collect_body sid tok p s1 = Inr (s', evs) \<Longrightarrow> tiles_kept s1 s'"
  by (auto simp: recruit_collect_body_def Let_def tiles_kept_def tile_kept_def
      split: option.splits if_splits)

lemma with_session_tiles_kept:
  assumes "with_session s now sid body = Inr (s', evs)"
    and "\<And>tok p s1. tiles s1 = tiles s \<Longrightarrow> body tok p s1 = Inr (s', evs) \<Longrightarrow> tiles_kept s1 s'"
  shows "tiles_kept s s'"
  using assms(1)
proof (cases rule: with_session_cases)
  case unbound
  then show ?thesis by (simp add: tiles_kept_refl)
next
  case (limited tok p bucket)
  then show ?thesis by (simp add: tiles_kept_refl)
next
  case (admitted tok p bucket)
  from assms(2) [OF _ admitted(4)] show ?thesis
    by (simp add: tiles_kept_def)
qed

lemma join_tiles_kept: "join cfg now sid addr nm fid tok s = (s', evs) \<Longrightarrow> tiles_kept s s'"
  by (auto simp: join_def Let_def tiles_kept_def tile_kept_def map_of_tiles_recalc
      split: option.splits if_splits)

lemma step_tiles_kept: "step cfg now a s = Inr (s', evs) \<Longrightarrow> tiles_kept s s'"
proof (cases a)
  case (Connection sid addr)
  then show "step cfg now a s = Inr (s', evs) \<Longrightarrow> ?thesis"
    by (auto simp: connection_def tiles_kept_refl split: if_splits)
next
  case (Join sid nm fid tok)
  then show "step cfg now a s = Inr (s', evs) \<Longrightarrow> ?thesis"
    by (auto simp: on_socket_def tiles_kept_refl join_tiles_kept split: option.splits)
next
  case (Recruit_collect sid)
  then show "step cfg now a s = Inr (s', evs) \<Longrightarrow> ?thesis"
    by (auto simp: on_socket_def tiles_kept_refl recruit_collect_def split: option.splits
        elim!: with_session_tiles_kept intro: recruit_collect_body_tiles_kept)
next
  case (Deploy sid targetId raw)
  then show "step cfg now a s = Inr (s', evs) \<Longrightarrow> ?thesis"
    by (auto simp: on_socket_def tiles_kept_refl deploy_def split: option.splits
        elim!: with_session_tiles_kept intro: deploy_body_tiles_kept)
next
  case (Move sid fromId toId raw)
  then show "step cfg now a s = Inr (s', evs) \<Longrightarrow> ?thesis"
    by (auto simp: on_socket_def tiles_kept_refl move_def split: option.splits
        elim!: with_session_tiles_kept intro: move_body_tiles_kept)
next
  case (Attack sid fromId targetId raw)
  then show "step cfg now a s = Inr (s', evs) \<Longrightarrow> ?thesis"
    by (auto simp: on_socket_def tiles_kept_refl attack_def split: option.splits
        elim!: with_session_tiles_kept intro: attack_body_tiles_kept)
next
  case (Disconnect sid)
  then show "step cfg now a s = Inr (s', evs) \<Longrightarrow> ?thesis"
    by (auto simp: on_socket_def disconnect_def Let_def tiles_kept_refl tiles_kept_def tile_kept_def
        split: option.splits if_splits prod.splits)
next
  case Tick
  then show "step cfg now a s = Inr (s', evs) \<Longrightarrow> ?thesis"
    by (auto simp: tick_def tiles_kept_refl)
qed

lemma run_tiles_kept: "run cfg as s = Inr (s', evs) \<Longrightarrow> tiles_kept s s'"
proof (induction as arbitrary: s evs)
  case Nil
  then show ?case by (simp add: tiles_kept_refl)
next
  case (Cons a as)
  obtain now act where a: "a = (now, act)" by (cases a)
  from Cons.prems a obtain s1 ev1 ev2 where
    st: "step cfg now act s = Inr (s1, ev1)" and rn: "run cfg as s1 = Inr (s', ev2)"
    by (auto split: sum.splits prod.splits)
  from step_tiles_kept [OF st] Cons.IH [OF rn] show ?case
    by (rule tiles_kept_trans)
qed


subsection \<open>Capitals\<close>

lemma attack_on_capital:
  assumes "map_of (tiles s) targetId = Some target" "isCapital target"
    and "attack now sid fromId targetId raw s = Inr (s', evs)"
  shows "s'\<lparr>actionLimiters := actionLimiters s\<rparr> = s \<and>
         evs = (if attack_checks s now sid fromId targetId raw
                then [To sid (Error_msg ''Capitals cannot be conquered.'')] else [])"
  using assms(3) unfolding attack_def
proof (cases rule: with_session_cases)
  case unbound
  then show ?thesis by (simp add: attack_checks_def)
next
  case (limited tok p bucket)
  then show ?thesis by (simp add: attack_checks_def)
next
  case (admitted tok p bucket)
  with assms(1,2) show ?thesis
    by (auto simp: attack_checks_def attack_body_def Let_def split: option.splits if_splits)
qed

text \<open>
  Claim C3, as the code has it. An attack whose target is a capital changes nothing but
  the rate limiter's bucket, and it is answered with the message
  \<open>Capitals cannot be conquered.\<close> exactly when it passes all the checks that the
  handler makes first; an attack that fails one of them gets no message. And whatever
  the server does in any run, attacks or not, a capital stays a capital with the same
  owner and the same control.
\<close>

theorem capitals_immune:
  "(\<forall>target s' evs.
      map_of (tiles s) targetId = Some target \<and> isCapital target \<and>
      attack now sid fromId targetId raw s = Inr (s', evs) \<longrightarrow>
        s'\<lparr>actionLimiters := actionLimiters s\<rparr> = s \<and>
        evs = (if attack_checks s now sid fromId targetId raw
               then [To sid (Error_msg ''Capitals cannot be conquered.'')] else [])) \<and>
   (\<forall>s' evs k c.
      run cfg as s = Inr (s', evs) \<and> map_of (tiles s) k = Some c \<and> isCapital c \<longrightarrow>
        (\<exists>c'. map_of (tiles s') k = Some c' \<and> isCapital c' \<and>
              ownerFaction c' = ownerFaction c \<and> control c' = control c))"
proof (intro conjI allI impI)
  fix target s' evs
  assume h: "map_of (tiles s) targetId = Some target \<and> isCapital target \<and>
      attack now sid fromId targetId raw s = Inr (s', evs)"
  then show "s'\<lparr>actionLimiters := actionLimiters s\<rparr> = s"
    using attack_on_capital by blast
  from h show "evs = (if attack_checks s now sid fromId targetId raw
               then [To sid (Error_msg ''Capitals cannot be conquered.'')] else [])"
    using attack_on_capital by blast
next
  fix s' evs k c
  assume h: "run cfg as s = Inr (s', evs) \<and> map_of (tiles s) k = Some c \<and> isCapital c"
  then have "tiles_kept s s'" using run_tiles_kept by blast
  with h show "\<exists>c'. map_of (tiles s') k = Some c' \<and> isCapital c' \<and>
              ownerFaction c' = ownerFaction c \<and> control c' = control c"
    unfolding tiles_kept_def tile_kept_def by fastforce
qed

text \<open>Bob, who holds tile \<open>1,0\<close> next to Ann's capital, attacks the capital.\<close>

theorem capitals_immune_witness:
  "events_of (attack 3000 ''s2'' ''1,0'' ''0,0'' 1 demo_contested) =
     [To ''s2'' (Error_msg ''Capitals cannot be conquered.'')] \<and>
   map_option ownerFaction (map_of (tiles demo_contested) ''0,0'') = Some ''f1'' \<and>
   map_option control (map_of (tiles demo_contested) ''0,0'') = Some 100"
proof -
  have "run default_config demo_war demo_boot \<noteq> Inl TypeError" by code_simp
  then obtain s' evs where r: "run default_config demo_war demo_boot = Inr (s', evs)"
    by (cases "run default_config demo_war demo_boot") (auto intro: error.exhaust)
  then have s': "s' = demo_contested" by (simp add: demo_contested_def state_after_def)
  have cap: "map_of (tiles demo_boot) ''0,0'' = Some demo_cap1" "isCapital demo_cap1"
    "ownerFaction demo_cap1 = ''f1''" "control demo_cap1 = 100"
    by code_simp+
  from capitals_immune [of demo_boot _ _ _ _ _ default_config demo_war] r cap(1,2)
  obtain c' where "map_of (tiles s') ''0,0'' = Some c'" "isCapital c'"
     "ownerFaction c' = ownerFaction demo_cap1" "control c' = control demo_cap1"
    by blast
  then have kept: "map_option ownerFaction (map_of (tiles demo_contested) ''0,0'') = Some ''f1''"
    "map_option control (map_of (tiles demo_contested) ''0,0'') = Some 100"
    by (simp_all add: s' cap)
  have "attack 3000 ''s2'' ''1,0'' ''0,0'' 1 demo_contested \<noteq> Inl TypeError" by code_simp
  then obtain s2 ev2 where a: "attack 3000 ''s2'' ''1,0'' ''0,0'' 1 demo_contested = Inr (s2, ev2)"
    by (cases "attack 3000 ''s2'' ''1,0'' ''0,0'' 1 demo_contested") (auto intro: error.exhaust)
  have target: "map_of (tiles demo_contested) ''0,0'' \<noteq> None"
    "isCapital (the (map_of (tiles demo_contested) ''0,0''))"
    by code_simp+
  have checks: "attack_checks demo_contested 3000 ''s2'' ''1,0'' ''0,0'' 1" by code_simp
  from capitals_immune [of demo_contested "''0,0''" 3000 "''s2''" "''1,0''" 1] a target checks
  have "ev2 = [To ''s2'' (Error_msg ''Capitals cannot be conquered.'')]" by auto
  with a kept show ?thesis by (simp add: events_of_def)
qed

text \<open>
  The claim as stated fails: Ann attacks the capital of \<open>f2\<close>, which is not a neighbour
  of her tile, and gets no message.
\<close>

theorem capital_message_counterexample:
  "session_player demo_joined ''s1'' = Some (''t1'', demo_player) \<and>
   map_of (tiles demo_joined) ''2,0'' = Some demo_cap2 \<and> isCapital demo_cap2 \<and>
   attack 1000 ''s1'' ''0,0'' ''2,0'' 10 demo_joined \<noteq> Inl TypeError \<and>
   events_of (attack 1000 ''s1'' ''0,0'' ''2,0'' 10 demo_joined) = []"
  by code_simp

subsection \<open>The search from the capital\<close>

lemma hops_Nil [simp]: "hops ts pf t [] = {}"
  by (simp add: hops_def)

lemma hops_Cons:
  "hops ts pf t ((dq, dr) # ds) =
     (case map_of ts (key (q_t t + dq) (r_t t + dr)) of
        None \<Rightarrow> {}
      | Some nt \<Rightarrow> if pf nt then {key (q_t t + dq) (r_t t + dr)} else {}) \<union> hops ts pf t ds"
  by (auto simp: hops_def split: option.splits)

lemma expand_sets:
  "expand ts pf t ds (seen, qu) = (seen', qu') \<Longrightarrow>
   set seen' = set seen \<union> hops ts pf t ds \<and> set qu' = set qu \<union> (hops ts pf t ds - set seen)"
proof (induction ds arbitrary: seen qu)
  case Nil
  then show ?case by auto
next
  case (Cons d ds)
  obtain dq dr where d: "d = (dq, dr)" by (cases d)
  let ?nid = "key (q_t t + dq) (r_t t + dr)"
  show ?case
  proof (cases "map_of ts ?nid")
    case None
    with Cons.prems d have "expand ts pf t ds (seen, qu) = (seen', qu')" by simp
    from Cons.IH [OF this] None d show ?thesis by (simp add: hops_Cons)
  next
    case (Some nt)
    show ?thesis
    proof (cases "?nid \<notin> set seen \<and> pf nt")
      case True
      with Cons.prems d Some
      have "expand ts pf t ds (seen @ [?nid], qu @ [?nid]) = (seen', qu')"
        by (simp add: Let_def)
      from Cons.IH [OF this] Some True d show ?thesis
        by (auto simp: hops_Cons)
    next
      case False
      with Cons.prems d Some have "expand ts pf t ds (seen, qu) = (seen', qu')"
        by (simp add: Let_def)
      from Cons.IH [OF this] Some False d show ?thesis
        by (auto simp: hops_Cons)
    qed
  qed
qed

lemma hops_in_tiles: "c \<in> hops ts pf t ds \<Longrightarrow> map_of ts c \<noteq> None"
  by (auto simp: hops_def)

lemma bfs_loop_reaches:
  assumes "set seen = set out \<union> set qu"
    and "\<forall>b \<in> set seen. linked ts pf a b"
    and "\<forall>b \<in> set out. \<forall>t. map_of ts b = Some t \<longrightarrow> hops ts pf t DIRS \<subseteq> set seen"
    and "\<forall>b \<in> set qu. map_of ts b \<noteq> None"
    and "a \<in> set seen"
  shows "\<exists>res. bfs_loop ts pf None seen qu out = Inr res \<and> set res = {b. linked ts pf a b}"
  using assms
proof (induction ts pf "None :: nat option" seen qu out rule: bfs_loop.induct)
  case (1 ts pf seen qu out)
  show ?case
  proof (cases qu)
    case Nil
    have closed: "linked ts pf a b \<Longrightarrow> b \<in> set out" for b
    proof (induction rule: linked.induct)
      case start
      with 1(2,6) Nil show ?case by simp
    next
      case (hop b t dq dr nt)
      then have "key (q_t t + dq) (r_t t + dr) \<in> hops ts pf t DIRS"
        by (auto simp: hops_def)
      with hop 1(4) have "key (q_t t + dq) (r_t t + dr) \<in> set seen" by blast
      with 1(2) Nil show ?case by simp
    qed
    have "set out = {b. linked ts pf a b}"
      using closed 1(2,3) Nil by auto
    with Nil show ?thesis by (subst bfs_loop.simps) simp
  next
    case (Cons i rest)
    with 1(5) obtain t where t: "map_of ts i = Some t" by auto
    let ?e = "expand ts pf t DIRS (seen, rest)"
    have e: "set (fst ?e) = set seen \<union> hops ts pf t DIRS"
      "set (snd ?e) = set rest \<union> (hops ts pf t DIRS - set seen)"
      using expand_sets [of ts pf t DIRS seen rest "fst ?e" "snd ?e"] by simp_all
    have i_seen: "i \<in> set seen" using 1(2) Cons by simp
    have i_linked: "linked ts pf a i" using 1(3) i_seen by blast
    have a1: "set (fst ?e) = set (out @ [i]) \<union> set (snd ?e)"
      using e 1(2) Cons by auto
    have a2: "\<forall>b \<in> set (fst ?e). linked ts pf a b"
    proof
      fix b assume "b \<in> set (fst ?e)"
      with e have "b \<in> set seen \<or> b \<in> hops ts pf t DIRS" by auto
      then show "linked ts pf a b"
      proof
        assume "b \<in> set seen" with 1(3) show ?thesis by blast
      next
        assume "b \<in> hops ts pf t DIRS"
        then obtain dq dr nt where "(dq, dr) \<in> set DIRS" "b = key (q_t t + dq) (r_t t + dr)"
          "map_of ts b = Some nt" "pf nt" by (auto simp: hops_def)
        with linked.hop [OF i_linked t] show ?thesis by blast
      qed
    qed
    have a3: "\<forall>b \<in> set (out @ [i]). \<forall>t'. map_of ts b = Some t' \<longrightarrow>
        hops ts pf t' DIRS \<subseteq> set (fst ?e)"
      using 1(4) e t by auto
    have a4: "\<forall>b \<in> set (snd ?e). map_of ts b \<noteq> None"
      using 1(5) Cons e hops_in_tiles by auto
    have a5: "a \<in> set (fst ?e)" using 1(6) e by simp
    have "\<exists>res. bfs_loop ts pf None (fst ?e) (snd ?e) (out @ [i]) = Inr res \<and>
        set res = {b. linked ts pf a b}"
      by (rule 1(1) [OF Cons _ t a1 a2 a3 a4 a5]) (simp add: below_limit_def)
    with Cons t show ?thesis
      by (subst bfs_loop.simps) (simp add: below_limit_def)
  qed
qed

lemma bfsRegion_reaches:
  assumes "map_of ts a \<noteq> None"
  shows "\<exists>res. bfsRegion a ts pf None = Inr res \<and> set res = {b. linked ts pf a b}"
  unfolding bfsRegion_def
  by (rule bfs_loop_reaches) (use assms in \<open>auto intro: linked.start\<close>)

lemma bfsRegion_no_start:
  "map_of ts a = None \<Longrightarrow> bfsRegion a ts pf None = Inl TypeError"
  unfolding bfsRegion_def by (subst bfs_loop.simps) (simp add: below_limit_def)

subsection \<open>Requests that fail a check\<close>

lemma attack_unchecked:
  assumes "attack now sid fromId targetId raw s = Inr (s', evs)"
    and "\<not> attack_checks s now sid fromId targetId raw"
  shows "s'\<lparr>actionLimiters := actionLimiters s\<rparr> = s \<and> evs = []"
  using assms(1) unfolding attack_def
proof (cases rule: with_session_cases)
  case unbound
  then show ?thesis by simp
next
  case (limited tok p bucket)
  then show ?thesis by simp
next
  case (admitted tok p bucket)
  with assms(2) show ?thesis
    by (auto simp: attack_checks_def attack_body_def Let_def split: option.splits if_splits)
qed

lemma deploy_unchecked:
  assumes "deploy now sid targetId raw s = Inr (s', evs)"
    and "\<not> deploy_checks s now sid targetId raw"
  shows "s'\<lparr>actionLimiters := actionLimiters s\<rparr> = s \<and> evs = []"
  using assms(1) unfolding deploy_def
proof (cases rule: with_session_cases)
  case unbound
  then show ?thesis by simp
next
  case (limited tok p bucket)
  then show ?thesis by simp
next
  case (admitted tok p bucket)
  with assms(2) show ?thesis
    by (auto simp: deploy_checks_def deploy_body_def Let_def split: option.splits if_splits)
qed

lemma deploy_unconnected:
  assumes "deploy now sid targetId raw s = Inr (s', evs)"
    and "deploy_checks s now sid targetId raw"
    and "session_player s sid = Some (tok, p)"
    and "\<not> connected s (factionId p) targetId"
  shows "s'\<lparr>actionLimiters := actionLimiters s\<rparr> = s \<and>
         evs = [To sid (Error_msg ''Target not connected to your capital.'')]"
  using assms(1) unfolding deploy_def
proof (cases rule: with_session_cases)
  case unbound
  with assms(3) show ?thesis by simp
next
  case (limited tok' p' bucket)
  with assms(2,3) show ?thesis by (simp add: deploy_checks_def)
next
  case (admitted tok' p' bucket)
  with assms(2,3,4) show ?thesis
    by (auto simp: deploy_checks_def connected_def deploy_body_def Let_def
        split: option.splits if_splits sum.splits)
qed

lemma move_unchecked:
  assumes "move now sid fromId toId raw s = Inr (s', evs)"
    and "\<not> move_checks s now sid fromId toId raw"
  shows "s'\<lparr>actionLimiters := actionLimiters s\<rparr> = s \<and> evs = []"
  using assms(1) unfolding move_def
proof (cases rule: with_session_cases)
  case unbound
  then show ?thesis by simp
next
  case (limited tok p bucket)
  then show ?thesis by simp
next
  case (admitted tok p bucket)
  with assms(2) show ?thesis
    by (auto simp: move_checks_def move_body_def Let_def split: option.splits if_splits)
qed

lemma move_no_error:
  assumes "move now sid fromId toId raw s = Inr (s', evs)"
  shows "\<not> list_ex is_error_msg evs"
  using assms(1) unfolding move_def
proof (cases rule: with_session_cases)
  case unbound
  then show ?thesis by simp
next
  case (limited tok p bucket)
  then show ?thesis by simp
next
  case (admitted tok p bucket)
  then show ?thesis
    by (auto simp: move_body_def Let_def is_error_msg_def split: option.splits if_splits)
qed

subsection \<open>Deploy\<close>

lemma connected_linked:
  assumes "map_of (capitalsByFaction s) fid = Some capId" "map_of (tiles s) capId \<noteq> None"
  shows "connected s fid targetId \<longleftrightarrow>
         linked (tiles s) (\<lambda>tile. ownerFaction tile = fid) capId targetId"
  using bfsRegion_reaches [OF assms(2), of "\<lambda>tile. ownerFaction tile = fid"] assms(1)
  by (auto simp: connected_def)

text \<open>
  Claim C4, as the code has it. Let a player be bound to the socket, the rate limiter
  admit the request, and the capital of the player's faction be a tile. The deploy
  returns, and it succeeds exactly when the amount (the payload rounded down) is at
  least 1 and at most the inventory, the target is a tile, and the target can be reached
  from the capital by hops between neighbouring tiles of the player's faction (which is
  what the search of the handler computes, in the state of this request): then the
  inventory drops by the amount and the player's troops on the target grow by it. In
  every other case nothing changes but the rate limiter's bucket; the message
  \<open>Target not connected to your capital.\<close> is sent when only the reachability fails, and
  no message at all when the amount, the inventory or the tile is wrong, reachable or
  not.
\<close>

theorem deploy_outcome:
  assumes sess: "session_player s sid = Some (tok, p)"
    and bucket: "map_of (actionLimiters s) tok = Some bucket" "fst (consume bucket now 1)"
    and cap: "map_of (capitalsByFaction s) (factionId p) = Some capId"
      "map_of (tiles s) capId \<noteq> None"
    and amt: "amount = coerce_amount raw"
  shows "\<exists>s' evs. deploy now sid targetId raw s = Inr (s', evs) \<and>
     (if 1 \<le> amount \<and> amount \<le> inventory p \<and> map_of (tiles s) targetId \<noteq> None \<and>
         linked (tiles s) (\<lambda>tile. ownerFaction tile = factionId p) capId targetId
      then \<exists>p'. map_of (players s') tok = Some p' \<and>
             inventory p' = inventory p - amount \<and>
             troops_at p' targetId = troops_at p targetId + amount \<and>
             evs = [To sid (Me_update (buildMe p')),
                    All (Tile_update (map_of (tiles s') targetId))]
      else s'\<lparr>actionLimiters := actionLimiters s\<rparr> = s \<and>
           evs = (if 1 \<le> amount \<and> amount \<le> inventory p \<and> map_of (tiles s) targetId \<noteq> None
                  then [To sid (Error_msg ''Target not connected to your capital.'')]
                  else []))"
proof -
  let ?pf = "\<lambda>tile. ownerFaction tile = factionId p"
  from bfsRegion_reaches [OF cap(2), of ?pf]
  obtain res where res: "bfsRegion capId (tiles s) ?pf None = Inr res"
    "set res = {b. linked (tiles s) ?pf capId b}" by blast
  let ?s1 = "s\<lparr>actionLimiters := AList.update tok (snd (consume bucket now 1)) (actionLimiters s)\<rparr>"
  have d: "deploy now sid targetId raw s = deploy_body sid targetId raw tok p ?s1"
    unfolding deploy_def by (rule with_session_admitted [OF sess bucket])
  show ?thesis
  proof (cases "1 \<le> amount \<and> amount \<le> inventory p \<and> map_of (tiles s) targetId \<noteq> None")
    case False
    with amt have "deploy_body sid targetId raw tok p ?s1 = Inr (?s1, [])"
      by (auto simp: deploy_body_def Let_def split: option.splits)
    with d False show ?thesis by simp
  next
    case checks: True
    show ?thesis
    proof (cases "linked (tiles s) ?pf capId targetId")
      case False
      with checks amt res cap(1)
      have "deploy_body sid targetId raw tok p ?s1 =
          Inr (?s1, [To sid (Error_msg ''Target not connected to your capital.'')])"
        by (auto simp: deploy_body_def Let_def split: option.splits)
      with d False checks show ?thesis by simp
    next
      case True
      let ?p' = "p\<lparr>inventory := inventory p - amount,
                   troops := AList.update targetId (troops_at p targetId + amount) (troops p)\<rparr>"
      let ?s2 = "recalcPublicTroops targetId (?s1\<lparr>players := AList.update tok ?p' (players ?s1)\<rparr>)"
      from True checks amt res cap(1)
      have "deploy_body sid targetId raw tok p ?s1 =
          Inr (?s2, [To sid (Me_update (buildMe ?p')), All (Tile_update (map_of (tiles ?s2) targetId))])"
        by (auto simp: deploy_body_def Let_def split: option.splits)
      moreover have "map_of (players ?s2) tok = Some ?p'"
        by (simp add: AList.update_conv')
      moreover have "troops_at ?p' targetId = troops_at p targetId + amount"
        by (simp add: troops_at_def [of ?p'] AList.update_conv')
      moreover have "inventory ?p' = inventory p - amount" by simp
      ultimately show ?thesis using d True checks by auto
    qed
  qed
qed

text \<open>Ann, with 3 troops in her inventory, deploys 2 of them to her capital.\<close>

theorem deploy_outcome_witness:
  "\<exists>s' evs p'. deploy 2000 ''s1'' ''0,0'' 2 demo_recruited = Inr (s', evs) \<and>
     map_of (players s') ''t1'' = Some p' \<and> inventory p' = 1 \<and> troops_at p' ''0,0'' = 102"
proof -
  let ?P = "the (map_of (players demo_recruited) ''t1'')"
  let ?B = "the (map_of (actionLimiters demo_recruited) ''t1'')"
  have sess: "session_player demo_recruited ''s1'' = Some (''t1'', ?P)" by code_simp
  have bucket: "map_of (actionLimiters demo_recruited) ''t1'' = Some ?B" by code_simp
  have admit: "fst (consume ?B 2000 1)" by code_simp
  have cap: "map_of (capitalsByFaction demo_recruited) (factionId ?P) = Some ''0,0''"
    "map_of (tiles demo_recruited) ''0,0'' \<noteq> None" by code_simp+
  have amt: "(2::int) = coerce_amount 2" by code_simp
  have vals: "inventory ?P = 3" "troops_at ?P ''0,0'' = 100" by code_simp+
  have lk: "linked (tiles demo_recruited) (\<lambda>tile. ownerFaction tile = factionId ?P) ''0,0'' ''0,0''"
    by (rule linked.start)
  from deploy_outcome [OF sess bucket admit cap amt, of "''0,0''"] lk cap(2) vals
  show ?thesis by auto
qed

text \<open>
  The claim as stated fails: the neutral tile is not connected to Ann's capital, and her
  deploys of 10 troops (she has 3) and of 0 troops to it are dropped without the message.
\<close>

theorem deploy_silent_counterexample:
  "\<not> connected demo_recruited ''f1'' ''1,0'' \<and>
   map_option (\<lambda>(tok, p). (tok, factionId p, inventory p)) (session_player demo_recruited ''s1'')
     = Some (''t1'', ''f1'', 3) \<and>
   deploy 2000 ''s1'' ''1,0'' 10 demo_recruited \<noteq> Inl TypeError \<and>
   events_of (deploy 2000 ''s1'' ''1,0'' 10 demo_recruited) = [] \<and>
   deploy 2000 ''s1'' ''1,0'' 0 demo_recruited \<noteq> Inl TypeError \<and>
   events_of (deploy 2000 ''s1'' ''1,0'' 0 demo_recruited) = []"
  by code_simp

subsection \<open>Which rejections are reported\<close>

lemma attack_error_only:
  assumes "attack now sid fromId targetId raw s = Inr (s', evs)" "list_ex is_error_msg evs"
  shows "attack_checks s now sid fromId targetId raw \<and>
         map_option isCapital (map_of (tiles s) targetId) = Some True"
  using assms(1) unfolding attack_def
proof (cases rule: with_session_cases)
  case unbound
  with assms(2) show ?thesis by simp
next
  case (limited tok p bucket)
  with assms(2) show ?thesis by simp
next
  case (admitted tok p bucket)
  with assms(2) show ?thesis
    by (auto simp: attack_checks_def attack_body_def Let_def is_error_msg_def
        split: option.splits if_splits)
qed

lemma deploy_error_only:
  assumes "deploy now sid targetId raw s = Inr (s', evs)" "list_ex is_error_msg evs"
  shows "deploy_checks s now sid targetId raw \<and>
         (\<exists>tok p. session_player s sid = Some (tok, p) \<and> \<not> connected s (factionId p) targetId)"
  using assms(1) unfolding deploy_def
proof (cases rule: with_session_cases)
  case unbound
  with assms(2) show ?thesis by simp
next
  case (limited tok p bucket)
  with assms(2) show ?thesis by simp
next
  case (admitted tok p bucket)
  with assms(2) show ?thesis
    by (auto simp: deploy_checks_def deploy_body_def connected_def Let_def is_error_msg_def
        split: option.splits if_splits sum.splits)
qed

text \<open>
  Claim C8, as the code has it. An attack that fails one of the checks before the capital
  check (no neighbour, not enough troops, not the owner, an amount below 1, a missing
  tile) changes nothing but the bucket and sends nothing; one that passes them and
  targets a capital is answered with \<open>Capitals cannot be conquered.\<close> A deploy with a
  missing tile, an amount below 1 or above the inventory changes nothing but the bucket
  and sends nothing; one that passes these checks and whose target is not connected to
  the capital is answered with \<open>Target not connected to your capital.\<close> A move never
  sends an error message, and one that fails a check changes nothing but the bucket and
  sends nothing. No other attack or deploy is answered with an error message.
\<close>

theorem rule_violation_feedback:
  "(\<forall>s' evs. attack now sid fromId targetId raw s = Inr (s', evs) \<and>
       \<not> attack_checks s now sid fromId targetId raw \<longrightarrow>
         s'\<lparr>actionLimiters := actionLimiters s\<rparr> = s \<and> evs = []) \<and>
   (\<forall>s' evs target. attack now sid fromId targetId raw s = Inr (s', evs) \<and>
       attack_checks s now sid fromId targetId raw \<and>
       map_of (tiles s) targetId = Some target \<and> isCapital target \<longrightarrow>
         s'\<lparr>actionLimiters := actionLimiters s\<rparr> = s \<and>
         evs = [To sid (Error_msg ''Capitals cannot be conquered.'')]) \<and>
   (\<forall>s' evs. deploy now sid targetId raw s = Inr (s', evs) \<and>
       \<not> deploy_checks s now sid targetId raw \<longrightarrow>
         s'\<lparr>actionLimiters := actionLimiters s\<rparr> = s \<and> evs = []) \<and>
   (\<forall>s' evs tok p. deploy now sid targetId raw s = Inr (s', evs) \<and>
       deploy_checks s now sid targetId raw \<and> session_player s sid = Some (tok, p) \<and>
       \<not> connected s (factionId p) targetId \<longrightarrow>
         s'\<lparr>actionLimiters := actionLimiters s\<rparr> = s \<and>
         evs = [To sid (Error_msg ''Target not connected to your capital.'')]) \<and>
   (\<forall>s' evs. move now sid fromId toId raw s = Inr (s', evs) \<longrightarrow>
       \<not> list_ex is_error_msg evs \<and>
       (\<not> move_checks s now sid fromId toId raw \<longrightarrow>
          s'\<lparr>actionLimiters := actionLimiters s\<rparr> = s \<and> evs = [])) \<and>
   (\<forall>s' evs. attack now sid fromId targetId raw s = Inr (s', evs) \<and>
       list_ex is_error_msg evs \<longrightarrow>
         attack_checks s now sid fromId targetId raw \<and>
         map_option isCapital (map_of (tiles s) targetId) = Some True) \<and>
   (\<forall>s' evs. deploy now sid targetId raw s = Inr (s', evs) \<and>
       list_ex is_error_msg evs \<longrightarrow>
         deploy_checks s now sid targetId raw \<and>
         (\<exists>tok p. session_player s sid = Some (tok, p) \<and>
                  \<not> connected s (factionId p) targetId))"
proof (intro conjI allI impI)
  fix s' evs
  assume "attack now sid fromId targetId raw s = Inr (s', evs) \<and>
       \<not> attack_checks s now sid fromId targetId raw"
  then show "s'\<lparr>actionLimiters := actionLimiters s\<rparr> = s" "evs = []"
    using attack_unchecked by blast+
next
  fix s' evs target
  assume "attack now sid fromId targetId raw s = Inr (s', evs) \<and>
       attack_checks s now sid fromId targetId raw \<and>
       map_of (tiles s) targetId = Some target \<and> isCapital target"
  then show "s'\<lparr>actionLimiters := actionLimiters s\<rparr> = s"
    "evs = [To sid (Error_msg ''Capitals cannot be conquered.'')]"
    using attack_on_capital by (blast, metis)
next
  fix s' evs
  assume "deploy now sid targetId raw s = Inr (s', evs) \<and>
       \<not> deploy_checks s now sid targetId raw"
  then show "s'\<lparr>actionLimiters := actionLimiters s\<rparr> = s" "evs = []"
    using deploy_unchecked by blast+
next
  fix s' evs tok p
  assume "deploy now sid targetId raw s = Inr (s', evs) \<and>
       deploy_checks s now sid targetId raw \<and> session_player s sid = Some (tok, p) \<and>
       \<not> connected s (factionId p) targetId"
  then show "s'\<lparr>actionLimiters := actionLimiters s\<rparr> = s"
    "evs = [To sid (Error_msg ''Target not connected to your capital.'')]"
    using deploy_unconnected by blast+
next
  fix s' evs
  assume m: "move now sid fromId toId raw s = Inr (s', evs)"
  then show "\<not> list_ex is_error_msg evs" by (rule move_no_error)
  assume "\<not> move_checks s now sid fromId toId raw"
  with m show "s'\<lparr>actionLimiters := actionLimiters s\<rparr> = s" "evs = []"
    using move_unchecked by blast+
next
  fix s' evs
  assume "attack now sid fromId targetId raw s = Inr (s', evs) \<and> list_ex is_error_msg evs"
  then show "attack_checks s now sid fromId targetId raw"
    "map_option isCapital (map_of (tiles s) targetId) = Some True"
    using attack_error_only by blast+
next
  fix s' evs
  assume "deploy now sid targetId raw s = Inr (s', evs) \<and> list_ex is_error_msg evs"
  then show "deploy_checks s now sid targetId raw"
    "\<exists>tok p. session_player s sid = Some (tok, p) \<and> \<not> connected s (factionId p) targetId"
    using deploy_error_only by blast+
qed

text \<open>Ann attacks with 500 troops (she has 100), and deploys 2 troops to the neutral
  tile.\<close>

theorem rule_violation_feedback_witness:
  "events_of (attack 2000 ''s1'' ''0,0'' ''1,0'' 500 demo_recruited) = [] \<and>
   events_of (deploy 2000 ''s1'' ''1,0'' 2 demo_recruited) =
     [To ''s1'' (Error_msg ''Target not connected to your capital.'')]"
proof -
  let ?P = "the (map_of (players demo_recruited) ''t1'')"
  have "attack 2000 ''s1'' ''0,0'' ''1,0'' 500 demo_recruited \<noteq> Inl TypeError" by code_simp
  then obtain s1 ev1 where a: "attack 2000 ''s1'' ''0,0'' ''1,0'' 500 demo_recruited = Inr (s1, ev1)"
    by (cases "attack 2000 ''s1'' ''0,0'' ''1,0'' 500 demo_recruited") (auto intro: error.exhaust)
  have na: "\<not> attack_checks demo_recruited 2000 ''s1'' ''0,0'' ''1,0'' 500" by code_simp
  have "deploy 2000 ''s1'' ''1,0'' 2 demo_recruited \<noteq> Inl TypeError" by code_simp
  then obtain s2 ev2 where d: "deploy 2000 ''s1'' ''1,0'' 2 demo_recruited = Inr (s2, ev2)"
    by (cases "deploy 2000 ''s1'' ''1,0'' 2 demo_recruited") (auto intro: error.exhaust)
  have dc: "deploy_checks demo_recruited 2000 ''s1'' ''1,0'' 2" by code_simp
  have sess: "session_player demo_recruited ''s1'' = Some (''t1'', ?P)" by code_simp
  have nc: "\<not> connected demo_recruited (factionId ?P) ''1,0''" by code_simp
  note t = rule_violation_feedback [of 2000 "''s1''" "''0,0''" "''1,0''" 500 demo_recruited]
  from t a na have e1: "ev1 = []" by blast
  note u = rule_violation_feedback [of 2000 "''s1''" _ "''1,0''" 2 demo_recruited]
  from u d dc sess nc
  have e2: "ev2 = [To ''s1'' (Error_msg ''Target not connected to your capital.'')]" by blast
  from a d e1 e2 show ?thesis by (simp add: events_of_def)
qed

text \<open>
  The claim as stated fails: Ann's attack with 500 troops, of which she has 100, and her
  deploy of 10 troops, of which she has 3, both get no message.
\<close>

theorem silent_rejection_counterexample:
  "map_option fst (session_player demo_recruited ''s1'') = Some ''t1'' \<and>
   troops_of demo_recruited ''t1'' ''0,0'' = 100 \<and>
   attack 2000 ''s1'' ''0,0'' ''1,0'' 500 demo_recruited \<noteq> Inl TypeError \<and>
   events_of (attack 2000 ''s1'' ''0,0'' ''1,0'' 500 demo_recruited) = [] \<and>
   map_option (inventory \<circ> snd) (session_player demo_recruited ''s1'') = Some 3 \<and>
   deploy 2000 ''s1'' ''0,0'' 10 demo_recruited \<noteq> Inl TypeError \<and>
   events_of (deploy 2000 ''s1'' ''0,0'' 10 demo_recruited) = []"
  by code_simp

subsection \<open>The aggregate under the other actions\<close>

text \<open>
  Connections, collections, deploys, moves, attacks, disconnections and ticks keep the
  aggregates right; a join of a new token into a faction with a capital leaves the
  capital's aggregate short of the new player's troops.
\<close>

lemma aggregates_right_iff:
  "aggregates_right s \<longleftrightarrow>
     (\<forall>k c. map_of (tiles s) k = Some c \<longrightarrow> publicTroops c = troops_sum (players s) k)"
proof
  assume a: "aggregates_right s"
  show "\<forall>k c. map_of (tiles s) k = Some c \<longrightarrow> publicTroops c = troops_sum (players s) k"
  proof (intro allI impI)
    fix k c assume m: "map_of (tiles s) k = Some c"
    then have "k \<in> set (map fst (tiles s))"
      by (auto dest: map_of_SomeD intro: rev_image_eqI)
    with a m show "publicTroops c = troops_sum (players s) k"
      by (auto simp: aggregates_right_def list_all_iff)
  qed
next
  assume "\<forall>k c. map_of (tiles s) k = Some c \<longrightarrow> publicTroops c = troops_sum (players s) k"
  then show "aggregates_right s"
    by (auto simp: aggregates_right_def list_all_iff split: option.splits)
qed

lemma troops_sum_update:
  "map_of ps tok = Some p \<Longrightarrow>
   troops_sum (AList.update tok p' ps) k = troops_sum ps k + (troops_at p' k - troops_at p k)"
  unfolding troops_sum_eq
  by (induction ps) (auto split: if_splits)

lemma troops_sum_fresh:
  "map_of ps tok = None \<Longrightarrow>
   troops_sum (AList.update tok p' ps) k = troops_sum ps k + troops_at p' k"
  unfolding troops_sum_eq
  by (induction ps) (auto split: if_splits)

lemma troops_at_debit_other: "t \<noteq> f \<Longrightarrow> troops_at (debit f a p) t = troops_at p t"
  by (simp add: troops_at_def [of "debit f a p"] map_of_troops_debit) (simp add: troops_at_def)

lemma aggregates_after:
  assumes inv: "aggregates_right s1"
    and mp: "map_of (players s1) tok = Some p"
    and pl: "players s' = AList.update tok p' (players s1)"
    and same: "\<And>k. k \<notin> K \<Longrightarrow> troops_at p' k = troops_at p k"
    and tl: "\<And>k c'. map_of (tiles s') k = Some c' \<Longrightarrow>
        (k \<in> K \<and> publicTroops c' = troops_sum (players s') k) \<or>
        (k \<notin> K \<and> (\<exists>c. map_of (tiles s1) k = Some c \<and> publicTroops c' = publicTroops c))"
  shows "aggregates_right s'"
  unfolding aggregates_right_iff
proof (intro allI impI)
  fix k c' assume m: "map_of (tiles s') k = Some c'"
  from tl [OF m] show "publicTroops c' = troops_sum (players s') k"
  proof
    assume "k \<in> K \<and> publicTroops c' = troops_sum (players s') k"
    then show ?thesis by simp
  next
    assume "k \<notin> K \<and> (\<exists>c. map_of (tiles s1) k = Some c \<and> publicTroops c' = publicTroops c)"
    then obtain c where k: "k \<notin> K" and c: "map_of (tiles s1) k = Some c"
      "publicTroops c' = publicTroops c" by blast
    from inv c(1) have "publicTroops c = troops_sum (players s1) k"
      by (simp add: aggregates_right_iff)
    with c(2) same [OF k] show ?thesis
      by (simp add: pl troops_sum_update [OF mp])
  qed
qed

lemma attack_body_aggregates:
  assumes "attack_body sid fromId targetId raw tok p s1 = Inr (s', evs)"
    and inv: "aggregates_right s1" and mp: "map_of (players s1) tok = Some p"
  shows "aggregates_right s'"
proof -
  let ?a = "coerce_amount raw"
  let ?t = "the (map_of (tiles s1) targetId)"
  from assms(1) consider
      (none) "s' = s1"
    | (win) "control ?t < ?a" "map_of (tiles s1) targetId = Some ?t"
        "s' = recalcPublicTroops targetId (recalcPublicTroops fromId
           (s1\<lparr>players := AList.update tok (credit targetId (?a - control ?t) (debit fromId ?a p))
                   (players s1),
               tiles := AList.update targetId (?t\<lparr>ownerFaction := factionId p, control := 0\<rparr>)
                   (tiles s1)\<rparr>))"
    | (lose) "map_of (tiles s1) targetId = Some ?t"
        "s' = recalcPublicTroops fromId
           (s1\<lparr>players := AList.update tok (debit fromId ?a p) (players s1),
               tiles := AList.update targetId (?t\<lparr>control := control ?t - ?a\<rparr>) (tiles s1)\<rparr>)"
  proof (cases "map_of (tiles s1) fromId")
    case None
    with assms(1) have "s' = s1" by (simp add: attack_body_def)
    then show ?thesis by (rule that(1))
  next
    case src: (Some src)
    show ?thesis
    proof (cases "map_of (tiles s1) targetId")
      case None
      with assms(1) src have "s' = s1" by (simp add: attack_body_def)
      then show ?thesis by (rule that(1))
    next
      case target: (Some target)
      show ?thesis
      proof (cases "?a < 1 \<or> ownerFaction src \<noteq> factionId p \<or> troops_at p fromId < ?a \<or>
          \<not> adjacent src targetId \<or> isCapital target")
        case True
        with assms(1) src target have "s' = s1"
          by (auto simp: attack_body_def Let_def split: if_splits)
        then show ?thesis by (rule that(1))
      next
        case False
        show ?thesis
        proof (cases "control target < ?a")
          case True
          with assms(1) src target False show ?thesis
            by (intro that(2)) (simp_all add: attack_body_def Let_def)
        next
          case lost: False
          with assms(1) src target False show ?thesis
            by (intro that(3)) (simp_all add: attack_body_def Let_def)
        qed
      qed
    qed
  qed
  then show ?thesis
  proof cases
    case none
    with inv show ?thesis by simp
  next
    case win
    show ?thesis
    proof (rule aggregates_after [OF inv mp, where K = "{fromId, targetId}"])
      show "players s' = AList.update tok (credit targetId (?a - control ?t) (debit fromId ?a p))
          (players s1)"
        by (simp add: win(3))
      show "troops_at (credit targetId (?a - control ?t) (debit fromId ?a p)) k = troops_at p k"
        if "k \<notin> {fromId, targetId}" for k
        using that by (simp add: troops_at_credit troops_at_debit_other)
      show "(k \<in> {fromId, targetId} \<and> publicTroops c' = troops_sum (players s') k) \<or>
            (k \<notin> {fromId, targetId} \<and>
             (\<exists>c. map_of (tiles s1) k = Some c \<and> publicTroops c' = publicTroops c))"
        if "map_of (tiles s') k = Some c'" for k c'
        using that unfolding win(3)
        by (auto simp: map_of_tiles_recalc AList.update_conv' split: if_splits)
    qed
  next
    case lose
    show ?thesis
    proof (rule aggregates_after [OF inv mp, where K = "{fromId}"])
      show "players s' = AList.update tok (debit fromId ?a p) (players s1)"
        by (simp add: lose(2))
      show "troops_at (debit fromId ?a p) k = troops_at p k" if "k \<notin> {fromId}" for k
        using that by (simp add: troops_at_debit_other)
      show "(k \<in> {fromId} \<and> publicTroops c' = troops_sum (players s') k) \<or>
            (k \<notin> {fromId} \<and>
             (\<exists>c. map_of (tiles s1) k = Some c \<and> publicTroops c' = publicTroops c))"
        if "map_of (tiles s') k = Some c'" for k c'
        using that lose(1) unfolding lose(2)
        by (auto simp: map_of_tiles_recalc AList.update_conv' split: if_splits)
    qed
  qed
qed

lemma move_body_aggregates:
  assumes "move_body sid fromId toId raw tok p s1 = Inr (s', evs)"
    and inv: "aggregates_right s1" and mp: "map_of (players s1) tok = Some p"
  shows "aggregates_right s'"
proof -
  let ?a = "coerce_amount raw"
  from assms(1) consider
      (none) "s' = s1"
    | (moved) "s' = recalcPublicTroops toId (recalcPublicTroops fromId
           (s1\<lparr>players := AList.update tok (credit toId ?a (debit fromId ?a p)) (players s1)\<rparr>))"
  proof (cases "map_of (tiles s1) fromId")
    case None
    with assms(1) have "s' = s1" by (simp add: move_body_def)
    then show ?thesis by (rule that(1))
  next
    case src: (Some src)
    show ?thesis
    proof (cases "map_of (tiles s1) toId")
      case None
      with assms(1) src have "s' = s1" by (simp add: move_body_def)
      then show ?thesis by (rule that(1))
    next
      case dst: (Some dst)
      show ?thesis
      proof (cases "?a < 1 \<or> \<not> adjacent src toId \<or> ownerFaction src \<noteq> factionId p \<or>
          ownerFaction dst \<noteq> factionId p \<or> troops_at p fromId < ?a")
        case True
        with assms(1) src dst have "s' = s1"
          by (auto simp: move_body_def Let_def split: if_splits)
        then show ?thesis by (rule that(1))
      next
        case False
        with assms(1) src dst show ?thesis
          by (intro that(2)) (simp add: move_body_def Let_def)
      qed
    qed
  qed
  then show ?thesis
  proof cases
    case none
    with inv show ?thesis by simp
  next
    case moved
    show ?thesis
    proof (rule aggregates_after [OF inv mp, where K = "{fromId, toId}"])
      show "players s' = AList.update tok (credit toId ?a (debit fromId ?a p)) (players s1)"
        by (simp add: moved)
      show "troops_at (credit toId ?a (debit fromId ?a p)) k = troops_at p k"
        if "k \<notin> {fromId, toId}" for k
        using that by (simp add: troops_at_credit troops_at_debit_other)
      show "(k \<in> {fromId, toId} \<and> publicTroops c' = troops_sum (players s') k) \<or>
            (k \<notin> {fromId, toId} \<and>
             (\<exists>c. map_of (tiles s1) k = Some c \<and> publicTroops c' = publicTroops c))"
        if "map_of (tiles s') k = Some c'" for k c'
        using that unfolding moved
        by (auto simp: map_of_tiles_recalc split: if_splits)
    qed
  qed
qed

lemma deploy_body_aggregates:
  assumes "deploy_body sid targetId raw tok p s1 = Inr (s', evs)"
    and inv: "aggregates_right s1" and mp: "map_of (players s1) tok = Some p"
  shows "aggregates_right s'"
proof -
  let ?a = "coerce_amount raw"
  let ?p' = "p\<lparr>inventory := inventory p - ?a,
               troops := AList.update targetId (troops_at p targetId + ?a) (troops p)\<rparr>"
  from assms(1) consider
      (none) "s' = s1"
    | (deployed) "s' = recalcPublicTroops targetId
           (s1\<lparr>players := AList.update tok ?p' (players s1)\<rparr>)"
  proof (cases "map_of (tiles s1) targetId = None \<or> ?a < 1 \<or> inventory p < ?a")
    case True
    with assms(1) have "s' = s1"
      by (auto simp: deploy_body_def Let_def split: option.splits if_splits)
    then show ?thesis by (rule that(1))
  next
    case False
    then obtain t where t: "map_of (tiles s1) targetId = Some t" by auto
    from assms(1) False t obtain capId where
      capId: "map_of (capitalsByFaction s1) (factionId p) = Some capId"
      by (auto simp: deploy_body_def Let_def split: option.splits)
    from assms(1) False t capId obtain eligible where
      el: "bfsRegion capId (tiles s1) (\<lambda>tile. ownerFaction tile = factionId p) None = Inr eligible"
      by (auto simp: deploy_body_def Let_def split: sum.splits)
    show ?thesis
    proof (cases "targetId \<in> set eligible")
      case True
      with assms(1) False t capId el show ?thesis
        by (intro that(2)) (simp add: deploy_body_def Let_def)
    next
      case False
      with assms(1) \<open>\<not> (map_of (tiles s1) targetId = None \<or> ?a < 1 \<or> inventory p < ?a)\<close>
        t capId el have "s' = s1"
        by (simp add: deploy_body_def Let_def)
      then show ?thesis by (rule that(1))
    qed
  qed
  then show ?thesis
  proof cases
    case none
    with inv show ?thesis by simp
  next
    case deployed
    show ?thesis
    proof (rule aggregates_after [OF inv mp, where K = "{targetId}"])
      show "players s' = AList.update tok ?p' (players s1)"
        by (simp add: deployed)
      show "troops_at ?p' k = troops_at p k" if "k \<notin> {targetId}" for k
        using that by (simp add: troops_at_def AList.update_conv')
      show "(k \<in> {targetId} \<and> publicTroops c' = troops_sum (players s') k) \<or>
            (k \<notin> {targetId} \<and>
             (\<exists>c. map_of (tiles s1) k = Some c \<and> publicTroops c' = publicTroops c))"
        if "map_of (tiles s') k = Some c'" for k c'
        using that unfolding deployed
        by (auto simp: map_of_tiles_recalc split: if_splits)
    qed
  qed
qed

lemma recruit_collect_body_aggregates:
  assumes "recruit_collect_body sid tok p s1 = Inr (s', evs)"
    and inv: "aggregates_right s1" and mp: "map_of (players s1) tok = Some p"
  shows "aggregates_right s'"
proof -
  have "s' = s1 \<or> (\<exists>a b c d.
        s' = s1\<lparr>players := AList.update tok
                (p\<lparr>inventory := a, producedPrecise := b, produced := c, remainingMs := d\<rparr>)
                (players s1)\<rparr>)"
  proof (cases "produced p")
    case None
    with assms(1) show ?thesis by (simp add: recruit_collect_body_def)
  next
    case (Some add)
    show ?thesis
    proof (cases "0 < add")
      case False
      with assms(1) Some show ?thesis by (simp add: recruit_collect_body_def)
    next
      case True
      with assms(1) Some have "s' = s1\<lparr>players := AList.update tok
          (p\<lparr>inventory := inventory p + add,
             producedPrecise :=
               js_max (Finite 0) (js_sub (or_zero (producedPrecise p)) (whole_number add)),
             produced := Some 0, remainingMs := RECRUIT_DURATION_MS\<rparr>) (players s1)\<rparr>"
        by (auto simp: recruit_collect_body_def Let_def)
      then show ?thesis by blast
    qed
  qed
  then consider
      (none) "s' = s1"
    | (collected) a b c d where
        "s' = s1\<lparr>players := AList.update tok
                (p\<lparr>inventory := a, producedPrecise := b, produced := c, remainingMs := d\<rparr>)
                (players s1)\<rparr>"
    by blast
  then show ?thesis
  proof cases
    case none
    with inv show ?thesis by simp
  next
    case collected
    let ?p' = "p\<lparr>inventory := a, producedPrecise := b, produced := c, remainingMs := d\<rparr>"
    show ?thesis
    proof (rule aggregates_after [OF inv mp, where K = "{}"])
      show "players s' = AList.update tok ?p' (players s1)"
        by (simp add: collected)
      show "troops_at ?p' k = troops_at p k" for k
        by (simp add: troops_at_def)
      show "(k \<in> {} \<and> publicTroops c' = troops_sum (players s') k) \<or>
            (k \<notin> {} \<and> (\<exists>c. map_of (tiles s1) k = Some c \<and> publicTroops c' = publicTroops c))"
        if "map_of (tiles s') k = Some c'" for k c'
        using that unfolding collected by simp
    qed
  qed
qed

lemma aggregates_same:
  "tiles s' = tiles s \<and> players s' = players s \<Longrightarrow> aggregates_right s \<Longrightarrow> aggregates_right s'"
  by (simp add: aggregates_right_iff)

lemma session_player_lookup:
  "session_player s sid = Some (tok, p) \<Longrightarrow> map_of (players s) tok = Some p"
  by (auto simp: session_player_def split: option.splits if_splits)

lemma handler_aggregates:
  assumes "with_session s now sid body = Inr (s', evs)" "aggregates_right s"
    and "\<And>tok p s1. body tok p s1 = Inr (s', evs) \<Longrightarrow> aggregates_right s1 \<Longrightarrow>
           map_of (players s1) tok = Some p \<Longrightarrow> aggregates_right s'"
  shows "aggregates_right s'"
  using assms(1)
proof (cases rule: with_session_cases)
  case unbound
  with assms(2) show ?thesis by simp
next
  case (limited tok p bucket)
  with assms(2) show ?thesis by (simp add: aggregates_right_iff)
next
  case (admitted tok p bucket)
  let ?s1 = "s\<lparr>actionLimiters := AList.update tok (snd (consume bucket now 1)) (actionLimiters s)\<rparr>"
  have a: "aggregates_right ?s1" using assms(2) by (simp add: aggregates_right_iff)
  have b: "map_of (players ?s1) tok = Some p"
    using session_player_lookup [OF admitted(1)] by simp
  from assms(3) [OF admitted(4) a b] show ?thesis .
qed

lemma tick_aggregates: "aggregates_right s \<Longrightarrow> aggregates_right (fst (tick s))"
proof -
  have "troops_sum (map (\<lambda>(k, p). (k, tick_player p)) ps) t = troops_sum ps t" for ps t
    unfolding troops_sum_eq by (induction ps) (auto simp: troops_at_def tick_player_def Let_def)
  then show "aggregates_right s \<Longrightarrow> aggregates_right (fst (tick s))"
    by (simp add: aggregates_right_iff tick_def)
qed

lemma recruit_collect_aggregates:
  assumes "recruit_collect now sid s = Inr (s', evs)" "aggregates_right s"
  shows "aggregates_right s'"
  by (rule handler_aggregates [OF assms(1) [unfolded recruit_collect_def] assms(2)]) (rule recruit_collect_body_aggregates)

lemma deploy_aggregates:
  assumes "deploy now sid targetId raw s = Inr (s', evs)" "aggregates_right s"
  shows "aggregates_right s'"
  by (rule handler_aggregates [OF assms(1) [unfolded deploy_def] assms(2)]) (rule deploy_body_aggregates)

lemma move_aggregates:
  assumes "move now sid fromId toId raw s = Inr (s', evs)" "aggregates_right s"
  shows "aggregates_right s'"
  by (rule handler_aggregates [OF assms(1) [unfolded move_def] assms(2)]) (rule move_body_aggregates)

lemma attack_aggregates:
  assumes "attack now sid fromId targetId raw s = Inr (s', evs)" "aggregates_right s"
  shows "aggregates_right s'"
  by (rule handler_aggregates [OF assms(1) [unfolded attack_def] assms(2)]) (rule attack_body_aggregates)

lemma connection_same:
  "connection cfg sid addr s = (s', evs) \<Longrightarrow> tiles s' = tiles s \<and> players s' = players s"
  by (auto simp: connection_def split: if_splits)

lemma disconnect_same:
  "disconnect cfg sid s = (s', evs) \<Longrightarrow> tiles s' = tiles s \<and> players s' = players s"
  by (auto simp: disconnect_def Let_def split: option.splits if_splits prod.splits)

lemma on_socket_cases:
  assumes "on_socket s sid handler = Inr (s', evs)"
  obtains "s' = s" | addr where "handler addr = Inr (s', evs)"
  using assms by (auto simp: on_socket_def split: option.splits)

lemma step_aggregates:
  assumes "step cfg now a s = Inr (s', evs)" "\<not> is_join a" "aggregates_right s"
  shows "aggregates_right s'"
proof (cases a)
  case (Connection sid addr)
  with assms(1) have "connection cfg sid addr s = (s', evs)" by simp
  from connection_same [OF this] assms(3) show ?thesis
    by (rule aggregates_same)
next
  case (Join sid nm fid tok)
  with assms(2) show ?thesis by (simp add: is_join_def)
next
  case (Recruit_collect sid)
  with assms(1) have "on_socket s sid (\<lambda>addr. recruit_collect now sid s) = Inr (s', evs)"
    by simp
  then show ?thesis
  proof (cases rule: on_socket_cases)
    case 1
    with assms(3) show ?thesis by simp
  next
    case (2 addr)
    from recruit_collect_aggregates [OF 2 assms(3)] show ?thesis .
  qed
next
  case (Deploy sid targetId raw)
  with assms(1) have "on_socket s sid (\<lambda>addr. deploy now sid targetId raw s) = Inr (s', evs)"
    by simp
  then show ?thesis
  proof (cases rule: on_socket_cases)
    case 1
    with assms(3) show ?thesis by simp
  next
    case (2 addr)
    from deploy_aggregates [OF 2 assms(3)] show ?thesis .
  qed
next
  case (Move sid fromId toId raw)
  with assms(1) have "on_socket s sid (\<lambda>addr. move now sid fromId toId raw s) = Inr (s', evs)"
    by simp
  then show ?thesis
  proof (cases rule: on_socket_cases)
    case 1
    with assms(3) show ?thesis by simp
  next
    case (2 addr)
    from move_aggregates [OF 2 assms(3)] show ?thesis .
  qed
next
  case (Attack sid fromId targetId raw)
  with assms(1) have "on_socket s sid (\<lambda>addr. attack now sid fromId targetId raw s) = Inr (s', evs)"
    by simp
  then show ?thesis
  proof (cases rule: on_socket_cases)
    case 1
    with assms(3) show ?thesis by simp
  next
    case (2 addr)
    from attack_aggregates [OF 2 assms(3)] show ?thesis .
  qed
next
  case (Disconnect sid)
  with assms(1) have "on_socket s sid (\<lambda>addr. Inr (disconnect cfg sid s)) = Inr (s', evs)"
    by simp
  then show ?thesis
  proof (cases rule: on_socket_cases)
    case 1
    with assms(3) show ?thesis by simp
  next
    case (2 addr)
    then have "disconnect cfg sid s = (s', evs)" by simp
    from disconnect_same [OF this] assms(3) show ?thesis
      by (rule aggregates_same)
  qed
next
  case Tick
  with assms(1) have "s' = fst (tick s)" by auto
  with tick_aggregates [OF assms(3)] show ?thesis by simp
qed

lemma join_aggregate_stale:
  assumes "nm \<noteq> []" "fid \<noteq> []" "find (\<lambda>f. id_f f = fid) (factions s) \<noteq> None"
    and cap: "map_of (capitalsByFaction s) fid = Some capId" "capId \<noteq> []"
      "map_of (tiles s) capId = Some c"
    and fresh: "map_of (players s) tok = None"
    and j: "join cfg now sid addr nm fid tok s = (s', evs)"
  shows "map_of (tiles s') capId = Some (c\<lparr>publicTroops := troops_sum (players s) capId\<rparr>) \<and>
         troops_sum (players s') capId = troops_sum (players s) capId + START_TROOPS cfg \<and>
         hd evs = All (Tile_update (Some (c\<lparr>publicTroops := troops_sum (players s) capId\<rparr>)))"
proof -
  let ?p = "\<lparr>token = tok, name = take 24 nm, factionId = fid,
              troops = [(capId, START_TROOPS cfg)],
              producedPrecise = Finite 0, produced = Some 0, inventory = 0,
              remainingMs = RECRUIT_DURATION_MS, recruitDurationMs = RECRUIT_DURATION_MS,
              reserveCap = RESERVE_CAP\<rparr>"
  from assms have t: "tiles s' = tiles (recalcPublicTroops capId s)"
    and p: "players s' = AList.update tok ?p (players s)"
    and e: "hd evs = All (Tile_update (map_of (tiles (recalcPublicTroops capId s)) capId))"
    by (auto simp: join_def Let_def troops_at_def)
  from t cap(3) have "map_of (tiles s') capId =
      Some (c\<lparr>publicTroops := troops_sum (players s) capId\<rparr>)"
    by (simp add: map_of_tiles_recalc)
  moreover have "troops_sum (players s') capId = troops_sum (players s) capId + START_TROOPS cfg"
    unfolding p troops_sum_fresh [OF fresh] by (simp add: troops_at_def)
  moreover have "hd evs = All (Tile_update (Some (c\<lparr>publicTroops := troops_sum (players s) capId\<rparr>)))"
    using e cap(3) by (simp add: map_of_tiles_recalc)
  ultimately show ?thesis by blast
qed

subsection \<open>The aggregate after a join\<close>

text \<open>
  Claim C2 at a failing input. After Ann has joined the small world, she has 100 troops
  on her capital, yet the \<open>publicTroops\<close> of the capital is 0, and this is the value that
  the \<open>tile_update\<close> of the join has sent: \<open>join\<close> recomputes the aggregate before it
  stores the new player in \<open>players\<close>.
\<close>

theorem join_public_troops_stale:
  "map_option publicTroops (map_of (tiles demo_joined) ''0,0'') = Some 0 \<and>
   troops_sum (players demo_joined) ''0,0'' = 100 \<and>
   list_ex (\<lambda>e. e = All (Tile_update (Some demo_cap1))) (events_of (run default_config demo_ann demo_boot))"
  by code_simp

subsection \<open>Snapshot and restore in general\<close>

text \<open>
  Restoring a snapshot gives back the players as they were, but for an accumulator that
  was not finite, and the tiles with every \<open>publicTroops\<close> recomputed from the players,
  also when the snapshot lacks the field; the tiles are the same as before exactly when
  the aggregates were right before.
\<close>

lemma update_fresh: "k \<notin> fst ` set al \<Longrightarrow> AList.update k v al = al @ [(k, v)]"
  by (induction al) auto

lemma fold_update_fresh:
  "distinct (map f xs) \<Longrightarrow> f ` set xs \<inter> fst ` set acc = {} \<Longrightarrow>
   fold (\<lambda>x m. AList.update (f x) (g x) m) xs acc = acc @ map (\<lambda>x. (f x, g x)) xs"
proof (induction xs arbitrary: acc)
  case Nil
  then show ?case by simp
next
  case (Cons x xs)
  from Cons.prems have fresh: "f x \<notin> fst ` set acc" by auto
  have "f ` set xs \<inter> fst ` set (acc @ [(f x, g x)]) = {}"
    using Cons.prems by auto
  with Cons.IH [of "acc @ [(f x, g x)]"] Cons.prems(1) fresh show ?case
    by (simp add: update_fresh)
qed

lemma restore_save_tile [simp]: "restore_tile (save_tile t) = t"
  by (simp add: restore_tile_def save_tile_def)

lemma id_save_tile [simp]: "id_j (save_tile t) = id_t t"
  by (simp add: save_tile_def)

lemma recalc_all_tiles:
  "tiles s1 = tiles s2 \<Longrightarrow> (\<And>k. troops_sum (players s1) k = troops_sum (players s2) k) \<Longrightarrow>
   tiles (fold (\<lambda>(k, t). recalcPublicTroops (id_t t)) xs s1) =
   tiles (fold (\<lambda>(k, t). recalcPublicTroops (id_t t)) xs s2) \<and>
   players (fold (\<lambda>(k, t). recalcPublicTroops (id_t t)) xs s1) = players s1"
proof (induction xs arbitrary: s1 s2)
  case Nil
  then show ?case by simp
next
  case (Cons x xs)
  obtain k t where x: "x = (k, t)" by (cases x)
  have "tiles (recalcPublicTroops (id_t t) s1) = tiles (recalcPublicTroops (id_t t) s2)"
    using Cons.prems by (simp add: recalcPublicTroops_def split: option.splits)
  moreover have "troops_sum (players (recalcPublicTroops (id_t t) s1)) k' =
      troops_sum (players (recalcPublicTroops (id_t t) s2)) k'" for k'
    using Cons.prems by simp
  ultimately show ?case using Cons.IH [of "recalcPublicTroops (id_t t) s1"
        "recalcPublicTroops (id_t t) s2"] x by simp
qed

lemma recalc_right: "aggregates_right s \<Longrightarrow> recalcPublicTroops k s = s"
  by (auto simp: recalcPublicTroops_def aggregates_right_iff AList.update_triv
      split: option.splits)

lemma recalc_all_right: "aggregates_right s \<Longrightarrow> recalcAllPublicTroops s = s"
proof -
  have "aggregates_right s \<Longrightarrow> fold (\<lambda>(k, t). recalcPublicTroops (id_t t)) xs s = s" for xs
    by (induction xs) (auto simp: recalc_right)
  then show "aggregates_right s \<Longrightarrow> recalcAllPublicTroops s = s"
    by (simp add: recalcAllPublicTroops_def)
qed

lemma saved_player_fields [simp]:
  "token (saved_player p) = token p" "troops (saved_player p) = troops p"
  by (simp_all add: saved_player_def)

lemma saved_player_finite: "producedPrecise p = Finite x \<Longrightarrow> saved_player p = p"
  by (simp add: saved_player_def)

lemma troops_sum_saved:
  "troops_sum (map (\<lambda>(k, p). (k, saved_player p)) ps) t = troops_sum ps t"
  unfolding troops_sum_eq by (induction ps) (auto simp: troops_at_def)

lemma restored_players:
  assumes "stored_by_id s"
  shows "fold (\<lambda>p m. AList.update (token p) p m) (players_j (snapshot cfg s)) [] =
         map (\<lambda>(k, p). (k, saved_player p)) (players s)"
proof -
  have d2: "distinct (map (\<lambda>x. token (snd x)) (players s))"
  proof -
    have e: "map (\<lambda>x. token (snd x)) (players s) = map fst (players s)"
      using assms by (auto simp: stored_by_id_def list_all_iff)
    show ?thesis unfolding e using assms by (simp add: stored_by_id_def)
  qed
  have "players_j (snapshot cfg s) = map (\<lambda>x. saved_player (snd x)) (players s)"
    by (simp add: snapshot_def saved_player_def case_prod_unfold)
  then have "fold (\<lambda>p m. AList.update (token p) p m) (players_j (snapshot cfg s)) [] =
      fold (\<lambda>x m. AList.update (token (snd x)) (saved_player (snd x)) m) (players s) []"
    by (simp add: fold_map comp_def)
  also have "\<dots> = map (\<lambda>x. (token (snd x), saved_player (snd x))) (players s)"
    using fold_update_fresh [OF d2, of "[]" "\<lambda>x. saved_player (snd x)"] by simp
  also have "\<dots> = map (\<lambda>(k, p). (k, saved_player p)) (players s)"
    using assms by (auto simp: stored_by_id_def list_all_iff)
  finally show ?thesis .
qed

lemma snapshot_restore:
  assumes "stored_by_id s"
  shows "players (loadSnapshot cfg (Some (snapshot cfg s)) s0) =
           map (\<lambda>(k, p). (k, saved_player p)) (players s) \<and>
         tiles (loadSnapshot cfg (Some (snapshot cfg s)) s0) = tiles (recalcAllPublicTroops s)"
proof -
  let ?ts = "fold (\<lambda>t m. AList.update (id_j t) (restore_tile t) m)
               (map (\<lambda>(k, t). save_tile t) (tiles s)) []"
  let ?ps = "map (\<lambda>(k, p). (k, saved_player p)) (players s)"
  have d1: "distinct (map (\<lambda>x. id_t (snd x)) (tiles s))"
  proof -
    have e: "map (\<lambda>x. id_t (snd x)) (tiles s) = map fst (tiles s)"
      using assms by (auto simp: stored_by_id_def list_all_iff)
    show ?thesis unfolding e using assms by (simp add: stored_by_id_def)
  qed
  have "?ts = fold (\<lambda>x m. AList.update (id_t (snd x)) (snd x) m) (tiles s) []"
    by (simp add: fold_map comp_def case_prod_unfold)
  also have "\<dots> = map (\<lambda>x. (id_t (snd x), snd x)) (tiles s)"
    using fold_update_fresh [OF d1, of "[]" snd] by simp
  also have "\<dots> = tiles s"
    using assms by (auto simp: stored_by_id_def list_all_iff intro!: map_idI)
  finally have ts: "?ts = tiles s" .
  note ps = restored_players [OF assms, of cfg]
  let ?s1 = "s0\<lparr>tiles := tiles s, players := ?ps,
      ipToToken := (if \<not> DISABLE_IP_LOCK cfg
         then fold (\<lambda>(a, tok) m. AList.update a tok m)
                (if DISABLE_IP_LOCK cfg then [] else ipToToken s) []
         else ipToToken s0)\<rparr>"
  have load: "loadSnapshot cfg (Some (snapshot cfg s)) s0 = recalcAllPublicTroops ?s1"
    using ts ps by (simp add: loadSnapshot_def) (simp add: snapshot_def)
  have "tiles (recalcAllPublicTroops ?s1) = tiles (recalcAllPublicTroops s) \<and>
        players (recalcAllPublicTroops ?s1) = players ?s1"
    unfolding recalcAllPublicTroops_def
    using recalc_all_tiles [of ?s1 s "tiles s"] by (simp add: troops_sum_saved)
  with load show ?thesis by simp
qed

text \<open>With every accumulator finite the players come back as they were.\<close>

lemma snapshot_restore_players:
  assumes "stored_by_id s"
    and "list_all (\<lambda>(k, p). json_number (producedPrecise p) = producedPrecise p) (players s)"
  shows "players (loadSnapshot cfg (Some (snapshot cfg s)) s0) = players s"
proof -
  have "map (\<lambda>(k, p). (k, saved_player p)) (players s) = players s"
    using assms(2) by (auto simp: list_all_iff saved_player_def intro!: map_idI)
  with snapshot_restore [OF assms(1), of cfg s0] show ?thesis by simp
qed

lemma update_at_first:
  "k \<notin> fst ` set pre \<Longrightarrow> AList.update k v (pre @ (k, c) # post) = pre @ (k, v) # post"
  by (induction pre) auto

lemma map_of_at_first:
  "k \<notin> fst ` set pre \<Longrightarrow> map_of (pre @ (k, c) # post) k = Some c"
  by (induction pre) auto

lemma recalc_all_fold:
  "tiles s1 = pre @ xs \<Longrightarrow> distinct (map fst (pre @ xs)) \<Longrightarrow>
   list_all (\<lambda>(k, t). id_t t = k) xs \<Longrightarrow>
   tiles (fold (\<lambda>(k, t). recalcPublicTroops (id_t t)) xs s1) =
     pre @ map (\<lambda>(k, t). (k, t\<lparr>publicTroops := troops_sum (players s1) k\<rparr>)) xs"
proof (induction xs arbitrary: pre s1)
  case Nil
  then show ?case by simp
next
  case (Cons x xs)
  obtain k t where x: "x = (k, t)" by (cases x)
  from Cons.prems x have idk: "id_t t = k" and fresh: "k \<notin> fst ` set pre" by auto
  let ?t' = "t\<lparr>publicTroops := troops_sum (players s1) k\<rparr>"
  let ?s2 = "recalcPublicTroops k s1"
  have m: "map_of (tiles s1) k = Some t"
    unfolding Cons.prems(1) x by (rule map_of_at_first [OF fresh])
  have u: "AList.update k ?t' (tiles s1) = pre @ (k, ?t') # xs"
    unfolding Cons.prems(1) x by (rule update_at_first [OF fresh])
  have t2: "tiles ?s2 = (pre @ [(k, ?t')]) @ xs"
    by (simp add: recalcPublicTroops_def m u)
  have d2: "distinct (map fst ((pre @ [(k, ?t')]) @ xs))"
    using Cons.prems(2) x by simp
  have k2: "list_all (\<lambda>(k, t). id_t t = k) xs" using Cons.prems(3) by simp
  from Cons.IH [OF t2 d2 k2] x idk show ?case by simp
qed

lemma recalc_all_map:
  assumes "list_all (\<lambda>(k, t). id_t t = k) (tiles s)" "distinct (map fst (tiles s))"
  shows "tiles (recalcAllPublicTroops s) =
     map (\<lambda>(k, t). (k, t\<lparr>publicTroops := troops_sum (players s) k\<rparr>)) (tiles s)"
  unfolding recalcAllPublicTroops_def
  using recalc_all_fold [of s "[]" "tiles s"] assms by simp

lemma recalc_all_players [simp]: "players (recalcAllPublicTroops s) = players s"
  unfolding recalcAllPublicTroops_def
  using recalc_all_tiles [of s s "tiles s"] by simp

lemma restore_aggregates:
  assumes "stored_by_id s"
  shows "aggregates_right (loadSnapshot cfg (Some (snapshot cfg s)) s0)"
proof -
  let ?r = "loadSnapshot cfg (Some (snapshot cfg s)) s0"
  from snapshot_restore [OF assms, of cfg s0]
  have p: "players ?r = map (\<lambda>(k, p). (k, saved_player p)) (players s)"
    and t: "tiles ?r = tiles (recalcAllPublicTroops s)"
    by simp_all
  have m: "tiles ?r = map (\<lambda>(k, t). (k, t\<lparr>publicTroops := troops_sum (players s) k\<rparr>)) (tiles s)"
    unfolding t using assms by (intro recalc_all_map) (simp_all add: stored_by_id_def)
  show ?thesis
    unfolding aggregates_right_iff p troops_sum_saved
  proof (intro allI impI)
    fix k c assume "map_of (tiles ?r) k = Some c"
    then have "(k, c) \<in> set (tiles ?r)" by (rule map_of_SomeD)
    then show "publicTroops c = troops_sum (players s) k"
      unfolding m by auto
  qed
qed

lemma restore_old_tile [simp]:
  "restore_tile ((save_tile t)\<lparr>publicTroops_j := None\<rparr>) = t\<lparr>publicTroops := 0\<rparr>"
  "id_j ((save_tile t)\<lparr>publicTroops_j := None\<rparr>) = id_t t"
  by (simp_all add: restore_tile_def save_tile_def)

lemma old_schema_restore:
  assumes "stored_by_id s"
  shows "tiles (loadSnapshot cfg (Some (old_schema (snapshot cfg s))) s0) =
         tiles (loadSnapshot cfg (Some (snapshot cfg s)) s0) \<and>
         players (loadSnapshot cfg (Some (old_schema (snapshot cfg s))) s0) =
         players (loadSnapshot cfg (Some (snapshot cfg s)) s0)"
proof -
  let ?zero = "map (\<lambda>(k, t). (k, t\<lparr>publicTroops := 0\<rparr>)) (tiles s)"
  let ?ps = "map (\<lambda>(k, p). (k, saved_player p)) (players s)"
  have keys: "map fst (tiles s) = map (\<lambda>x. id_t (snd x)) (tiles s)"
    using assms by (auto simp: stored_by_id_def list_all_iff)
  have d1: "distinct (map (\<lambda>x. id_t (snd x)) (tiles s))"
    unfolding keys [symmetric] using assms by (simp add: stored_by_id_def)
  have "fold (\<lambda>t m. AList.update (id_j t) (restore_tile t) m)
          (tiles_j (old_schema (snapshot cfg s))) []
        = fold (\<lambda>x m. AList.update (id_t (snd x)) ((snd x)\<lparr>publicTroops := 0\<rparr>) m) (tiles s) []"
    by (simp add: old_schema_def snapshot_def fold_map comp_def case_prod_unfold)
  also have "\<dots> = map (\<lambda>x. (id_t (snd x), (snd x)\<lparr>publicTroops := 0\<rparr>)) (tiles s)"
    using fold_update_fresh [OF d1, of "[]" "\<lambda>x. (snd x)\<lparr>publicTroops := 0\<rparr>"] by simp
  also have "\<dots> = ?zero"
    using assms by (auto simp: stored_by_id_def list_all_iff)
  finally have ts: "fold (\<lambda>t m. AList.update (id_j t) (restore_tile t) m)
          (tiles_j (old_schema (snapshot cfg s))) [] = ?zero" .
  note ps = restored_players [OF assms, of cfg]
  let ?s1 = "s0\<lparr>tiles := ?zero, players := ?ps,
      ipToToken := (if \<not> DISABLE_IP_LOCK cfg
         then fold (\<lambda>(a, tok) m. AList.update a tok m)
                (if DISABLE_IP_LOCK cfg then [] else ipToToken s) []
         else ipToToken s0)\<rparr>"
  have load: "loadSnapshot cfg (Some (old_schema (snapshot cfg s))) s0 = recalcAllPublicTroops ?s1"
    using ts ps by (simp add: loadSnapshot_def) (simp add: snapshot_def old_schema_def)
  have z: "list_all (\<lambda>(k, t). id_t t = k) (tiles ?s1)" "distinct (map fst (tiles ?s1))"
    using assms by (auto simp: stored_by_id_def list_all_iff comp_def case_prod_unfold)
  have "tiles (recalcAllPublicTroops ?s1) =
      map (\<lambda>(k, t). (k, t\<lparr>publicTroops := troops_sum (players s) k\<rparr>)) (tiles s)"
    unfolding recalc_all_map [OF z] by (simp add: comp_def case_prod_unfold troops_sum_saved [unfolded case_prod_unfold])
  moreover have "tiles (loadSnapshot cfg (Some (snapshot cfg s)) s0) =
      map (\<lambda>(k, t). (k, t\<lparr>publicTroops := troops_sum (players s) k\<rparr>)) (tiles s)"
    using snapshot_restore [OF assms, of cfg s0] recalc_all_map [of s] assms
    by (simp add: stored_by_id_def)
  ultimately show ?thesis using load snapshot_restore [OF assms, of cfg s0] by simp
qed

subsection \<open>Snapshot and restore after a join\<close>

text \<open>
  Claim C6 at a failing input. Taking a snapshot of the state after Ann's join and
  restoring it at the next boot gives back the players, but the capital's \<open>publicTroops\<close>
  is 100 after the restore and was 0 before the snapshot.
\<close>

theorem snapshot_restore_differs:
  "map_option publicTroops (map_of (tiles demo_joined) ''0,0'') = Some 0 \<and>
   map_option publicTroops (map_of (tiles
      (loadSnapshot default_config (Some (snapshot default_config demo_joined)) demo_boot)) ''0,0'')
     = Some 100 \<and>
   players (loadSnapshot default_config (Some (snapshot default_config demo_joined)) demo_boot)
     = players demo_joined"
  by code_simp

subsection \<open>Two joins from one origin\<close>

text \<open>A connection from an address that is bound to a live token is refused.\<close>

lemma connection_refused:
  "\<not> DISABLE_IP_LOCK cfg \<Longrightarrow> map_of (ipToToken s) addr = Some tok \<Longrightarrow> tok \<noteq> [] \<Longrightarrow>
   map_of (tokenToSocket s) tok \<noteq> None \<Longrightarrow>
   connection cfg sid addr s =
     (s, [To sid (Session_error ''Only one active session per IP is allowed.'')])"
  by (simp add: connection_def)

text \<open>
  Claim C9 at a failing input. With origin locking on, two sockets of one address
  connect while no token is bound to the address; the first joins, and while its
  connection is live the second joins too: no \<open>session_error\<close> is sent and there are two
  player records.
\<close>

theorem second_join_same_origin:
  "\<not> DISABLE_IP_LOCK default_config \<and>
   run default_config demo_same_origin demo_boot \<noteq> Inl TypeError \<and>
   map fst (players (state_after default_config demo_same_origin demo_boot)) = [''t1'', ''t2''] \<and>
   tokenToSocket (state_after default_config demo_same_origin demo_boot)
     = [(''t1'', ''s1''), (''t2'', ''s2'')] \<and>
   sockets (state_after default_config demo_same_origin demo_boot)
     = [(''s1'', ''10.0.0.1''), (''s2'', ''10.0.0.1'')] \<and>
   \<not> list_ex is_session_error (events_of (run default_config demo_same_origin demo_boot))"
  by code_simp

subsection \<open>Troop entries stay positive\<close>

lemma list_all_update:
  "list_all P al \<Longrightarrow> P (k, v) \<Longrightarrow> list_all P (AList.update k v al)"
  by (induction al) auto

lemma list_all_delete: "list_all P al \<Longrightarrow> list_all P (AList.delete k al)"
  by (induction al) auto

lemma troops_at_nonneg: "entries_positive p \<Longrightarrow> 0 \<le> troops_at p k"
  by (auto simp: entries_positive_def troops_at_def list_all_iff split: option.splits
      dest!: map_of_SomeD)

lemma entries_positive_debit: "entries_positive p \<Longrightarrow> entries_positive (debit f a p)"
  by (auto simp: entries_positive_def debit_def Let_def troops_at_def AList.update_conv'
      AList.delete_update_same intro: list_all_update list_all_delete split: option.splits)

lemma entries_positive_credit:
  "entries_positive p \<Longrightarrow> 0 < a \<Longrightarrow> entries_positive (credit t a p)"
  using troops_at_nonneg [of p t]
  by (auto simp: entries_positive_def credit_def intro!: list_all_update)

lemma troops_positive_update:
  "troops_positive s \<Longrightarrow> entries_positive p' \<Longrightarrow> players s' = AList.update tok p' (players s) \<Longrightarrow>
   troops_positive s'"
  by (simp add: troops_positive_def list_all_update)

lemma session_player_member:
  "session_player s sid = Some (tok, p) \<Longrightarrow> (tok, p) \<in> set (players s)"
  by (auto simp: session_player_def split: option.splits if_splits dest: map_of_SomeD)

lemma troops_positive_member:
  "troops_positive s \<Longrightarrow> (tok, p) \<in> set (players s) \<Longrightarrow> entries_positive p"
  by (auto simp: troops_positive_def list_all_iff)

lemma attack_body_players:
  assumes "attack_body sid fromId targetId raw tok p s1 = Inr (s', evs)"
  shows "players s' = players s1 \<or>
         players s' = AList.update tok (debit fromId (coerce_amount raw) p) (players s1) \<or>
         (control (the (map_of (tiles s1) targetId)) < coerce_amount raw \<and>
          players s' = AList.update tok
            (credit targetId (coerce_amount raw - control (the (map_of (tiles s1) targetId)))
              (debit fromId (coerce_amount raw) p)) (players s1))"
  using assms by (auto simp: attack_body_def Let_def split: option.splits if_splits)

lemma move_body_players:
  assumes "move_body sid fromId toId raw tok p s1 = Inr (s', evs)"
  shows "players s' = players s1 \<or>
         (1 \<le> coerce_amount raw \<and>
          players s' = AList.update tok
            (credit toId (coerce_amount raw) (debit fromId (coerce_amount raw) p)) (players s1))"
  using assms by (auto simp: move_body_def Let_def split: option.splits if_splits)

lemma deploy_body_players:
  assumes "deploy_body sid targetId raw tok p s1 = Inr (s', evs)"
  shows "players s' = players s1 \<or>
         (1 \<le> coerce_amount raw \<and>
          players s' = AList.update tok
            (p\<lparr>inventory := inventory p - coerce_amount raw,
               troops := AList.update targetId (troops_at p targetId + coerce_amount raw)
                 (troops p)\<rparr>)
            (players s1))"
  using assms
  by (auto simp: deploy_body_def Let_def split: option.splits if_splits sum.splits)

lemma recruit_collect_body_players:
  assumes "recruit_collect_body sid tok p s1 = Inr (s', evs)"
  shows "players s' = players s1 \<or>
         (\<exists>a b c d. players s' = AList.update tok
            (p\<lparr>inventory := a, producedPrecise := b, produced := c, remainingMs := d\<rparr>)
            (players s1))"
proof (cases "produced p")
  case None
  with assms show ?thesis by (simp add: recruit_collect_body_def)
next
  case (Some add)
  show ?thesis
  proof (cases "0 < add")
    case False
    with assms Some show ?thesis by (simp add: recruit_collect_body_def)
  next
    case True
    with assms Some have "players s' = AList.update tok
        (p\<lparr>inventory := inventory p + add,
           producedPrecise :=
             js_max (Finite 0) (js_sub (or_zero (producedPrecise p)) (whole_number add)),
           produced := Some 0, remainingMs := RECRUIT_DURATION_MS\<rparr>) (players s1)"
      by (auto simp: recruit_collect_body_def Let_def)
    then show ?thesis by blast
  qed
qed

lemma players_positiveI:
  assumes "troops_positive s1"
    and "players s' = players s1 \<or>
         (\<exists>p'. entries_positive p' \<and> players s' = AList.update tok p' (players s1))"
  shows "troops_positive s'"
  using assms(2)
proof
  assume "players s' = players s1"
  with assms(1) show ?thesis by (simp add: troops_positive_def)
next
  assume "\<exists>p'. entries_positive p' \<and> players s' = AList.update tok p' (players s1)"
  then obtain p' where "entries_positive p'" "players s' = AList.update tok p' (players s1)"
    by blast
  with assms(1) show ?thesis by (simp add: troops_positive_def list_all_update)
qed

lemma attack_body_positive:
  assumes "attack_body sid fromId targetId raw tok p s1 = Inr (s', evs)" "troops_positive s1"
    "entries_positive p"
  shows "troops_positive s'"
proof (rule players_positiveI [OF assms(2)])
  have d: "entries_positive (debit fromId (coerce_amount raw) p)"
    by (rule entries_positive_debit [OF assms(3)])
  have c: "entries_positive (credit targetId b (debit fromId (coerce_amount raw) p))"
    if "0 < b" for b
    by (rule entries_positive_credit [OF d that])
  from attack_body_players [OF assms(1)] d c
  show "players s' = players s1 \<or>
        (\<exists>p'. entries_positive p' \<and> players s' = AList.update tok p' (players s1))"
    by (metis diff_gt_0_iff_gt)
qed

lemma move_body_positive:
  assumes "move_body sid fromId toId raw tok p s1 = Inr (s', evs)" "troops_positive s1"
    "entries_positive p"
  shows "troops_positive s'"
proof (rule players_positiveI [OF assms(2)])
  have d: "entries_positive (debit fromId (coerce_amount raw) p)"
    by (rule entries_positive_debit [OF assms(3)])
  have c: "entries_positive (credit toId b (debit fromId (coerce_amount raw) p))"
    if "1 \<le> b" for b
    by (rule entries_positive_credit [OF d]) (use that in simp)
  from move_body_players [OF assms(1)] c
  show "players s' = players s1 \<or>
        (\<exists>p'. entries_positive p' \<and> players s' = AList.update tok p' (players s1))"
    by blast
qed

lemma deploy_body_positive:
  assumes "deploy_body sid targetId raw tok p s1 = Inr (s', evs)" "troops_positive s1"
    "entries_positive p"
  shows "troops_positive s'"
proof (rule players_positiveI [OF assms(2)])
  have "entries_positive (p\<lparr>inventory := n,
      troops := AList.update targetId (troops_at p targetId + a) (troops p)\<rparr>)"
    if "1 \<le> a" for a n
    using entries_positive_credit [OF assms(3), of a targetId] that
    by (simp add: entries_positive_def credit_def)
  with deploy_body_players [OF assms(1)]
  show "players s' = players s1 \<or>
        (\<exists>p'. entries_positive p' \<and> players s' = AList.update tok p' (players s1))"
    by blast
qed

lemma recruit_collect_body_positive:
  assumes "recruit_collect_body sid tok p s1 = Inr (s', evs)" "troops_positive s1"
    "entries_positive p"
  shows "troops_positive s'"
proof (rule players_positiveI [OF assms(2)])
  have "entries_positive (p\<lparr>inventory := a, producedPrecise := b, produced := c,
      remainingMs := d\<rparr>)" for a b c d
    using assms(3) by (simp add: entries_positive_def)
  with recruit_collect_body_players [OF assms(1)]
  show "players s' = players s1 \<or>
        (\<exists>p'. entries_positive p' \<and> players s' = AList.update tok p' (players s1))"
    by blast
qed

lemma with_session_positive:
  assumes "with_session s now sid body = Inr (s', evs)" "troops_positive s"
    and "\<And>tok p s1. players s1 = players s \<Longrightarrow> entries_positive p \<Longrightarrow>
           body tok p s1 = Inr (s', evs) \<Longrightarrow> troops_positive s'"
  shows "troops_positive s'"
  using assms(1)
proof (cases rule: with_session_cases)
  case unbound
  with assms(2) show ?thesis by simp
next
  case (limited tok p bucket)
  with assms(2) show ?thesis by (simp add: troops_positive_def)
next
  case (admitted tok p bucket)
  have "entries_positive p"
    using troops_positive_member [OF assms(2) session_player_member [OF admitted(1)]] .
  from assms(3) [OF _ this admitted(4)] show ?thesis by simp
qed

lemma join_players:
  assumes "join cfg now sid addr nm fid tok s = (s', evs)"
  shows "players s' = players s \<or>
         (\<exists>p'. (troops p' = [] \<or> (\<exists>c. troops p' = [(c, START_TROOPS cfg)])) \<and>
               players s' = AList.update tok p' (players s))"
proof (cases "nm = [] \<or> fid = [] \<or> find (\<lambda>f. id_f f = fid) (factions s) = None")
  case True
  with assms show ?thesis by (auto simp: join_def)
next
  case False
  let ?capId = "case map_of (capitalsByFaction s) fid of
                  None \<Rightarrow> None | Some c \<Rightarrow> if c = [] then None else Some c"
  let ?p0 = "\<lparr>token = tok, name = take 24 nm, factionId = fid, troops = [],
               producedPrecise = Finite 0, produced = Some 0, inventory = 0,
               remainingMs = RECRUIT_DURATION_MS, recruitDurationMs = RECRUIT_DURATION_MS,
               reserveCap = RESERVE_CAP\<rparr>"
  show ?thesis
  proof (cases ?capId)
    case None
    with assms False have "players s' = AList.update tok ?p0 (players s)"
      by (auto simp: join_def Let_def)
    then show ?thesis by (intro disjI2 exI [of _ ?p0]) simp
  next
    case (Some c)
    with assms False
    have "players s' = AList.update tok (?p0\<lparr>troops := [(c, START_TROOPS cfg)]\<rparr>) (players s)"
      by (auto simp: join_def Let_def troops_at_def)
    then show ?thesis
      by (intro disjI2 exI [of _ "?p0\<lparr>troops := [(c, START_TROOPS cfg)]\<rparr>"]) simp
  qed
qed

lemma join_positive:
  assumes "join cfg now sid addr nm fid tok s = (s', evs)" "0 < START_TROOPS cfg"
    "troops_positive s"
  shows "troops_positive s'"
proof (rule players_positiveI [OF assms(3)])
  have "entries_positive p'"
    if "troops p' = [] \<or> (\<exists>c. troops p' = [(c, START_TROOPS cfg)])" for p'
    using that assms(2) by (auto simp: entries_positive_def)
  with join_players [OF assms(1)]
  show "players s' = players s \<or>
        (\<exists>p'. entries_positive p' \<and> players s' = AList.update tok p' (players s))"
    by blast
qed

lemma troops_tick_player [simp]: "troops (tick_player p) = troops p"
  by (simp add: tick_player_def Let_def)

lemma tick_positive: "troops_positive s \<Longrightarrow> troops_positive (fst (tick s))"
  by (fastforce simp: tick_def troops_positive_def entries_positive_def list_all_iff)

lemma handler_positive:
  assumes "with_session s now sid body = Inr (s', evs)" "troops_positive s"
    and "\<And>tok p s1. body tok p s1 = Inr (s', evs) \<Longrightarrow> troops_positive s1 \<Longrightarrow>
           entries_positive p \<Longrightarrow> troops_positive s'"
  shows "troops_positive s'"
proof (rule with_session_positive [OF assms(1,2)])
  fix tok p s1
  assume a: "players s1 = players s" "entries_positive p" "body tok p s1 = Inr (s', evs)"
  from assms(2) a(1) have "troops_positive s1" by (simp add: troops_positive_def)
  from assms(3) [OF a(3) this a(2)] show "troops_positive s'" .
qed

lemma step_positive:
  assumes "step cfg now a s = Inr (s', evs)" "0 < START_TROOPS cfg" "troops_positive s"
  shows "troops_positive s'"
proof (cases a)
  case (Connection sid addr)
  with assms show ?thesis
    by (auto simp: connection_def troops_positive_def split: if_splits)
next
  case (Join sid nm fid tok)
  with assms show ?thesis
    by (auto simp: on_socket_def join_positive split: option.splits)
next
  case (Recruit_collect sid)
  with assms(1) consider "s' = s" | "recruit_collect now sid s = Inr (s', evs)"
    by (auto simp: on_socket_def split: option.splits)
  then show ?thesis
  proof cases
    case 1
    with assms(3) show ?thesis by simp
  next
    case 2
    show ?thesis
      by (rule handler_positive [OF 2 [unfolded recruit_collect_def] assms(3)]) (rule recruit_collect_body_positive)
  qed
next
  case (Deploy sid targetId raw)
  with assms(1) consider "s' = s" | "deploy now sid targetId raw s = Inr (s', evs)"
    by (auto simp: on_socket_def split: option.splits)
  then show ?thesis
  proof cases
    case 1
    with assms(3) show ?thesis by simp
  next
    case 2
    show ?thesis
      by (rule handler_positive [OF 2 [unfolded deploy_def] assms(3)]) (rule deploy_body_positive)
  qed
next
  case (Move sid fromId toId raw)
  with assms(1) consider "s' = s" | "move now sid fromId toId raw s = Inr (s', evs)"
    by (auto simp: on_socket_def split: option.splits)
  then show ?thesis
  proof cases
    case 1
    with assms(3) show ?thesis by simp
  next
    case 2
    show ?thesis
      by (rule handler_positive [OF 2 [unfolded move_def] assms(3)]) (rule move_body_positive)
  qed
next
  case (Attack sid fromId targetId raw)
  with assms(1) consider "s' = s" | "attack now sid fromId targetId raw s = Inr (s', evs)"
    by (auto simp: on_socket_def split: option.splits)
  then show ?thesis
  proof cases
    case 1
    with assms(3) show ?thesis by simp
  next
    case 2
    show ?thesis
      by (rule handler_positive [OF 2 [unfolded attack_def] assms(3)]) (rule attack_body_positive)
  qed
next
  case (Disconnect sid)
  with assms(1) have "players s' = players s"
    by (auto simp: on_socket_def disconnect_def Let_def split: option.splits if_splits prod.splits)
  with assms(3) show ?thesis by (simp add: troops_positive_def)
next
  case Tick
  with assms tick_positive [of s] show ?thesis by auto
qed

text \<open>
  Claim C5, as the code has it. Let the configured \<open>START_TROOPS\<close> be positive (the
  default is 100). If no player has a zero or negative troop entry, as at boot, then
  after any run of connections, joins, collections, deploys, moves, attacks,
  disconnections and ticks no player has one, and a player's troops on a tile are zero
  exactly when the player has no entry for the tile.
\<close>

theorem troops_stay_positive:
  assumes "0 < START_TROOPS cfg" and "troops_positive s" and "run cfg as s = Inr (s', evs)"
  shows "troops_positive s' \<and>
         (\<forall>tok p k. (tok, p) \<in> set (players s') \<longrightarrow>
            (troops_at p k = 0 \<longleftrightarrow> map_of (troops p) k = None))"
proof -
  have inv: "troops_positive s'"
    using assms(2,3)
  proof (induction as arbitrary: s evs)
    case Nil
    then show ?case by simp
  next
    case (Cons a as)
    obtain now act where a: "a = (now, act)" by (cases a)
    from Cons.prems a obtain s1 ev1 ev2 where
      st: "step cfg now act s = Inr (s1, ev1)" and rn: "run cfg as s1 = Inr (s', ev2)"
      by (auto split: sum.splits prod.splits)
    from step_positive [OF st assms(1) Cons.prems(1)] Cons.IH [OF _ rn] show ?case by blast
  qed
  have "troops_at p k = 0 \<longleftrightarrow> map_of (troops p) k = None"
    if "(tok, p) \<in> set (players s')" for tok p k
  proof -
    from troops_positive_member [OF inv that] have "entries_positive p" .
    then show ?thesis
      by (auto simp: entries_positive_def troops_at_def list_all_iff split: option.splits
          dest!: map_of_SomeD)
  qed
  with inv show ?thesis by blast
qed

text \<open>Ann attacks the neutral tile with all her 100 troops: her entry for the capital
  is removed, and the 75 survivors are her only entry.\<close>

theorem troops_stay_positive_witness:
  "troops_positive (state_after default_config
      (demo_ann @ [(1000, Attack ''s1'' ''0,0'' ''1,0'' 100)]) demo_boot) \<and>
   map_option troops (map_of (players (state_after default_config
      (demo_ann @ [(1000, Attack ''s1'' ''0,0'' ''1,0'' 100)]) demo_boot)) ''t1'')
     = Some [(''1,0'', 75)]"
proof -
  let ?as = "demo_ann @ [(1000, Attack ''s1'' ''0,0'' ''1,0'' 100)]"
  have cfg: "0 < START_TROOPS default_config" by code_simp
  have init: "troops_positive demo_boot" by code_simp
  have "run default_config ?as demo_boot \<noteq> Inl TypeError" by code_simp
  then obtain s' evs where r: "run default_config ?as demo_boot = Inr (s', evs)"
    by (cases "run default_config ?as demo_boot") (auto intro: error.exhaust)
  then have s': "s' = state_after default_config ?as demo_boot"
    by (simp add: state_after_def)
  have entry: "map_option troops (map_of (players (state_after default_config ?as demo_boot))
      ''t1'') = Some [(''1,0'', 75)]"
    by code_simp
  from troops_stay_positive [OF cfg init r] have "troops_positive s'" by blast
  with s' entry show ?thesis by simp
qed

text \<open>
  The claim as stated fails for a server started with \<open>START_TROOPS=0\<close>: the join stores
  a zero entry for the capital.
\<close>

theorem zero_start_troops_counterexample:
  "map_option troops (map_of (players
      (state_after (default_config\<lparr>START_TROOPS := 0\<rparr>) demo_ann demo_boot)) ''t1'')
     = Some [(''0,0'', 0)]"
  by code_simp

subsection \<open>Attack: what it leaves alone\<close>

text \<open>
  Claim C10. Whatever an attack request does (capture, repelled, or rejected), the
  records of all players other than the one bound to the requesting socket are the same
  afterwards, the attacker's entries at tiles other than \<open>fromId\<close> and \<open>targetId\<close> are the
  same, and no player is added or removed. Since another player's whole record is
  untouched, the troops that player has on a captured tile stay there.
\<close>

theorem attack_frame:
  assumes "attack now sid fromId targetId raw s = Inr (s', evs)"
  shows "(\<forall>tok'. session_token s sid \<noteq> Some tok' \<longrightarrow>
            map_of (players s') tok' = map_of (players s) tok') \<and>
         (\<forall>tok' p p' t. map_of (players s) tok' = Some p \<and> map_of (players s') tok' = Some p' \<and>
            t \<noteq> fromId \<and> t \<noteq> targetId \<longrightarrow> map_of (troops p') t = map_of (troops p) t) \<and>
         map fst (players s') = map fst (players s)"
  using assms
  unfolding attack_def attack_body_def with_session_def session_player_def
  by (auto simp: Let_def AList.update_conv' map_of_troops_debit map_of_troops_credit
       keys_update_present split: option.splits if_splits prod.splits)

theorem attack_frame_witness:
  "\<exists>s' evs. attack 2000 ''s2'' ''2,0'' ''1,0'' 1 (state_after default_config (butlast demo_war) demo_boot) = Inr (s', evs) \<and>
     map_of (players s') ''t1'' = map_of (players (state_after default_config (butlast demo_war) demo_boot)) ''t1'' \<and>
     troops_at (the (map_of (players s') ''t1'')) ''1,0'' = 5 \<and>
     ownerFaction (the (map_of (tiles s') ''1,0'')) = ''f2''"
proof -
  let ?s = "state_after default_config (butlast demo_war) demo_boot"
  have "attack 2000 ''s2'' ''2,0'' ''1,0'' 1 ?s \<noteq> Inl TypeError"
    by code_simp
  then obtain s' evs where h: "attack 2000 ''s2'' ''2,0'' ''1,0'' 1 ?s = Inr (s', evs)"
    by (cases "attack 2000 ''s2'' ''2,0'' ''1,0'' 1 ?s") (auto intro: error.exhaust)
  have other: "session_token ?s ''s2'' \<noteq> Some ''t1''"
    by code_simp
  have before: "troops_at (the (map_of (players ?s) ''t1'')) ''1,0'' = 5"
    by code_simp
  have owner: "ownerFaction (the (map_of (tiles (fst (projr (attack 2000 ''s2'' ''2,0'' ''1,0'' 1 ?s)))) ''1,0'')) = ''f2''"
    by code_simp
  from attack_frame [OF h] other
  have "map_of (players s') ''t1'' = map_of (players ?s) ''t1''" by blast
  with h before owner show ?thesis by simp
qed

subsection \<open>Recruitment tick\<close>

text \<open>
  \<open>Math.min\<close> with a finite number is at most that number and never \<open>+Infinity\<close>, and
  capping twice is capping once. \<open>x || 0\<close> is \<open>x\<close> unless \<open>x\<close> is \<open>NaN\<close>.
\<close>

lemma or_zero_number: "x \<noteq> NaN \<Longrightarrow> or_zero x = x"
  by (auto simp: or_zero_def)




text \<open>
  Nine ticks of a fresh player in doubles: the rate is 3.3333333333333335, the
  accumulator reaches 29.999999999999996, and \<open>produced\<close> is 29.
\<close>

lemma nine_ticks:
  "perSec demo_player = Finite (7505999378950827 / 2251799813685248) \<and>
   producedPrecise (fold (\<lambda>n. tick_player) [1, 2, 3, 4, 5, 6, 7, 8, 9 :: int] demo_player) =
     Finite (8444249301319679 / 281474976710656) \<and>
   produced (fold (\<lambda>n. tick_player) [1, 2, 3, 4, 5, 6, 7, 8, 9 :: int] demo_player) = Some 29"
  by code_simp



end
